theory Spec2Isabelle
  imports Complex_Main "HOL-Library.Multiset" "HOL-Library.Sublist" "HOL-Library.Product_Lexorder"
    "HOL-Library.Log_Nat"
begin

section \<open>Layer metadata (scripts/tensor-server.py, class LayerMetadata)\<close>

text \<open>
  The mutable fields of a layer record.  Python's \<open>Optional[...]\<close> fields are options,
  the device tag is the string the source stores, sizes and counters are Python ints,
  \<open>time.time()\<close> stamps are reals.  The field \<open>id\<close> of the source is called
  \<open>layer_meta_id\<close>, \<open>name\<close> is \<open>layer_name\<close> and \<open>shape\<close> is \<open>layer_shape\<close>.
\<close>

record LayerMetadata =
  layer_meta_id :: int
  layer_name :: string
  original_size_bytes :: int
  current_size_bytes :: int
  layer_shape :: "int list"
  original_dtype :: string
  current_dtype :: string
  current_device :: string
  gpu_id :: "int option"
  compression_type :: "string option"
  quantization_type :: "string option"
  quantization_params :: "(string \<times> string) list"
  nvme_path :: "string option"
  ramdisk_path :: "string option"
  access_count :: int
  last_access_timestamp :: real
  loaded_in_memory :: bool
  nvme_stripes :: "(string \<times> string) list list"
  is_on_nvme_stripped :: bool

text \<open>
  \<open>LayerMetadata.__init__\<close>.  The arguments come in the order of the source's signature.
  \<open>quantization_params if quantization_params else {}\<close> maps both \<open>None\<close> and the empty
  dictionary to the empty dictionary.  The constructor also creates the layer's lock in
  \<open>layer_locks\<close> when it is missing; that is \<open>LayerMetadata_init_locks\<close> below.
\<close>

definition LayerMetadata_init ::
  "int \<Rightarrow> string \<Rightarrow> int \<Rightarrow> int list \<Rightarrow> string \<Rightarrow> string \<Rightarrow> int option \<Rightarrow> string option \<Rightarrow>
   string option \<Rightarrow> string option \<Rightarrow> string option \<Rightarrow> (string \<times> string) list option \<Rightarrow> bool \<Rightarrow>
   LayerMetadata" where
  "LayerMetadata_init lid nm osize shp dtype cur_device gid ctype qtype npath rpath qparams stripped =
     \<lparr> layer_meta_id = lid,
       layer_name = nm,
       original_size_bytes = osize,
       current_size_bytes = osize,
       layer_shape = shp,
       original_dtype = dtype,
       current_dtype = dtype,
       current_device = cur_device,
       gpu_id = (if cur_device = ''gpu'' then gid else None),
       compression_type = ctype,
       quantization_type = qtype,
       quantization_params = (case qparams of None \<Rightarrow> [] | Some d \<Rightarrow> d),
       nvme_path = npath,
       ramdisk_path = rpath,
       access_count = 0,
       last_access_timestamp = 0,
       loaded_in_memory = (cur_device \<notin> set [''nvme'']),
       nvme_stripes = [],
       is_on_nvme_stripped = stripped \<rparr>"

definition LayerMetadata_init_locks :: "int set \<Rightarrow> int \<Rightarrow> int set" where
  "LayerMetadata_init_locks layer_locks lid =
     (if lid \<notin> layer_locks then insert lid layer_locks else layer_locks)"

text \<open>
  \<open>LayerMetadata.update_access_stats\<close>, with the clock reading as an argument.  The entry
  written to \<open>layer_access_stats\<close> is the triple (count, last access, name).
\<close>

definition update_access_stats :: "real \<Rightarrow> LayerMetadata \<Rightarrow> LayerMetadata" where
  "update_access_stats now m =
     m\<lparr> access_count := access_count m + 1, last_access_timestamp := now \<rparr>"

definition update_access_stats_entry :: "real \<Rightarrow> LayerMetadata \<Rightarrow> int \<times> real \<times> string" where
  "update_access_stats_entry now m = (access_count m + 1, now, layer_name m)"

text \<open>
  \<open>LayerMetadata.set_location\<close>.  The three assignments and the \<open>if/elif/else\<close> on the
  device string happen under the layer's lock, which the constructor created and nothing
  removes.
\<close>

definition set_location ::
  "string \<Rightarrow> string option \<Rightarrow> int option \<Rightarrow> LayerMetadata \<Rightarrow> LayerMetadata" where
  "set_location device_type_str path_val gpu_id_val m =
     (let m1 = m\<lparr> current_device := device_type_str,
                  gpu_id := (if device_type_str = ''gpu'' then gpu_id_val else None),
                  loaded_in_memory := (device_type_str \<notin> set [''nvme'']) \<rparr>
      in if device_type_str = ''nvme'' then m1\<lparr> nvme_path := path_val, ramdisk_path := None \<rparr>
         else if device_type_str = ''ramdisk'' then m1\<lparr> ramdisk_path := path_val, nvme_path := None \<rparr>
         else m1\<lparr> nvme_path := None, ramdisk_path := None \<rparr>)"

text \<open>A run of \<open>set_location\<close> calls on one layer, in order.\<close>

fun set_locations ::
  "(string \<times> string option \<times> int option) list \<Rightarrow> LayerMetadata \<Rightarrow> LayerMetadata" where
  "set_locations [] m = m"
| "set_locations ((d, p, g) # cs) m = set_locations cs (set_location d p g m)"

text \<open>
  The placement invariant: a field that is set agrees with the device tag, so at most one
  of the accelerator id, the NVMe path and the RAM-disk path is set.
\<close>

definition location_consistent :: "LayerMetadata \<Rightarrow> bool" where
  "location_consistent m =
     ((gpu_id m \<noteq> None \<longrightarrow> current_device m = ''gpu'') \<and>
      (nvme_path m \<noteq> None \<longrightarrow> current_device m = ''nvme'') \<and>
      (ramdisk_path m \<noteq> None \<longrightarrow> current_device m = ''ramdisk''))"

definition loaded_flag_ok :: "LayerMetadata \<Rightarrow> bool" where
  "loaded_flag_ok m = (loaded_in_memory m = (current_device m \<noteq> ''nvme''))"

section \<open>Transfer requests (class TransferRequest)\<close>

text \<open>
  A transfer request.  The callback is an opaque callable: the model keeps its identity and
  records every invocation with the arguments the source passes (the request's layer id,
  the success flag and the error message).  An exception raised by the callback is caught
  and logged by \<open>update_status\<close>, so it changes nothing here.
\<close>

record TransferRequest =
  layer_id :: int
  source_device :: string
  destination_device :: string
  priority :: int
  timestamp :: real
  data_to_transfer :: "real list option"
  callback :: "nat option"
  status :: string
  error_message :: "string option"

type_synonym callback_call = "nat \<times> int \<times> bool \<times> string option"

text \<open>\<open>TransferRequest.__init__\<close>; the last argument is the reading of \<open>time.time()\<close>.\<close>

definition TransferRequest_init ::
  "int \<Rightarrow> string \<Rightarrow> string \<Rightarrow> int \<Rightarrow> real list option \<Rightarrow> nat option \<Rightarrow> real \<Rightarrow> TransferRequest" where
  "TransferRequest_init lid source_device_str destination_device_str prio data cb now =
     \<lparr> layer_id = lid,
       source_device = source_device_str,
       destination_device = destination_device_str,
       priority = prio,
       timestamp = now,
       data_to_transfer = data,
       callback = cb,
       status = ''pending'',
       error_message = None \<rparr>"

text \<open>\<open>TransferRequest.__lt__\<close>, the only comparison the priority queue uses.\<close>

definition request_lt :: "TransferRequest \<Rightarrow> TransferRequest \<Rightarrow> bool" where
  "request_lt self other_request =
     (if priority self = priority other_request
      then timestamp self < timestamp other_request
      else priority self < priority other_request)"

text \<open>
  \<open>TransferRequest.update_status\<close>.  \<open>if error_msg_str:\<close> is Python truthiness: \<open>None\<close>
  and the empty string leave \<open>error_message\<close> as it was.  The result is the updated request
  and the callback invocations the call made (none or one).
\<close>

definition update_status ::
  "string \<Rightarrow> string option \<Rightarrow> TransferRequest \<Rightarrow> TransferRequest \<times> callback_call list" where
  "update_status new_status_str error_msg_str r =
     (let r1 = r\<lparr> status := new_status_str \<rparr>;
          r2 = (case error_msg_str of
                  None \<Rightarrow> r1
                | Some e \<Rightarrow> if e \<noteq> [] then r1\<lparr> error_message := Some e \<rparr> else r1)
      in (r2,
          if new_status_str \<in> set [''completed'', ''failed'']
          then (case callback r2 of
                  None \<Rightarrow> []
                | Some cb \<Rightarrow> [(cb, layer_id r2, new_status_str = ''completed'', error_message r2)])
          else []))"

text \<open>A run of \<open>update_status\<close> calls on one request, with all callback invocations in order.\<close>

fun update_statuses ::
  "(string \<times> string option) list \<Rightarrow> TransferRequest \<Rightarrow> TransferRequest \<times> callback_call list" where
  "update_statuses [] r = (r, [])"
| "update_statuses ((s, e) # cs) r =
     (let (r1, calls1) = update_status s e r;
          (r2, calls2) = update_statuses cs r1
      in (r2, calls1 @ calls2))"

definition terminal_status :: "string \<Rightarrow> bool" where
  "terminal_status s = (s = ''completed'' \<or> s = ''failed'')"

section \<open>The transfer queue (queue.PriorityQueue over heapq)\<close>

text \<open>
  \<open>layer_transfer_queue = queue.PriorityQueue(maxsize=200)\<close> keeps its entries in a Python
  list that the standard library's \<open>heapq\<close> orders, comparing entries with \<open>__lt__\<close> only.
  \<open>heapq._siftdown\<close> and \<open>heapq._siftup\<close> are \<open>heapq_siftdown\<close> and \<open>heapq_siftup\<close>;
  their \<open>while\<close> loops are the recursive functions \<open>siftdown_loop\<close> and \<open>siftup_loop\<close>,
  in which the item being placed travels as an argument while the list has a hole at
  \<open>pos\<close>.  Positions are list indices; every index read below is in range for the calls that
  \<open>heappush\<close> and \<open>heappop\<close> make.
\<close>

function siftdown_loop ::
  "TransferRequest list \<Rightarrow> nat \<Rightarrow> nat \<Rightarrow> TransferRequest \<Rightarrow> TransferRequest list" where
  "siftdown_loop heap startpos pos newitem =
     (if pos > startpos then
        (let parentpos = (pos - 1) div 2;
             parent = heap ! parentpos
         in if request_lt newitem parent
            then siftdown_loop (heap[pos := parent]) startpos parentpos newitem
            else heap[pos := newitem])
      else heap[pos := newitem])"
  by pat_completeness auto
termination
  by (relation "measure (\<lambda>(heap, startpos, pos, newitem). pos)") auto

definition heapq_siftdown :: "TransferRequest list \<Rightarrow> nat \<Rightarrow> nat \<Rightarrow> TransferRequest list" where
  "heapq_siftdown heap startpos pos = siftdown_loop heap startpos pos (heap ! pos)"

definition heappush :: "TransferRequest list \<Rightarrow> TransferRequest \<Rightarrow> TransferRequest list" where
  "heappush heap item = heapq_siftdown (heap @ [item]) 0 (length heap)"

function siftup_loop :: "TransferRequest list \<Rightarrow> nat \<Rightarrow> TransferRequest list \<times> nat" where
  "siftup_loop heap pos =
     (let endpos = length heap;
          childpos = 2 * pos + 1
      in if childpos < endpos then
           (let rightpos = childpos + 1;
                childpos' = (if rightpos < endpos \<and> \<not> request_lt (heap ! childpos) (heap ! rightpos)
                             then rightpos else childpos)
            in siftup_loop (heap[pos := heap ! childpos']) childpos')
         else (heap, pos))"
  by pat_completeness auto
termination
  by (relation "measure (\<lambda>(heap, pos). length heap - pos)") auto

definition heapq_siftup :: "TransferRequest list \<Rightarrow> nat \<Rightarrow> TransferRequest list" where
  "heapq_siftup heap pos =
     (let newitem = heap ! pos;
          (heap1, pos1) = siftup_loop heap pos
      in heapq_siftdown (heap1[pos1 := newitem]) pos pos1)"

text \<open>\<open>heappop\<close>; \<open>None\<close> is the \<open>IndexError\<close> of popping an empty list.\<close>

definition heappop :: "TransferRequest list \<Rightarrow> (TransferRequest \<times> TransferRequest list) option" where
  "heappop heap =
     (if heap = [] then None
      else (let lastelt = last heap;
                heap1 = butlast heap
            in if heap1 \<noteq> []
               then Some (heap1 ! 0, heapq_siftup (heap1[0 := lastelt]) 0)
               else Some (lastelt, heap1)))"

definition maxsize :: nat where
  "maxsize = 200"

text \<open>\<open>put_nowait\<close>: \<open>None\<close> is \<open>queue.Full\<close>.  \<open>get_nowait\<close>: \<open>None\<close> is \<open>queue.Empty\<close>.\<close>

definition put_nowait :: "TransferRequest list \<Rightarrow> TransferRequest \<Rightarrow> TransferRequest list option" where
  "put_nowait q item =
     (if 0 < maxsize \<and> maxsize \<le> length q then None else Some (heappush q item))"

definition get_nowait :: "TransferRequest list \<Rightarrow> (TransferRequest \<times> TransferRequest list) option" where
  "get_nowait q = heappop q"

text \<open>
  The source puts requests on the queue and has no consumer; the order in which the queue
  hands requests out is that of \<open>get\<close> on the same \<open>PriorityQueue\<close>.  \<open>put_all\<close> submits
  a list of requests in order (a request that meets a full queue is dropped, as the endpoint
  does), \<open>get_n\<close> takes up to \<open>n\<close> entries out, and \<open>dequeue_order\<close> submits everything
  and then empties the queue.
\<close>

fun put_all :: "TransferRequest list \<Rightarrow> TransferRequest list \<Rightarrow> TransferRequest list" where
  "put_all q [] = q"
| "put_all q (r # rs) =
     (case put_nowait q r of None \<Rightarrow> put_all q rs | Some q' \<Rightarrow> put_all q' rs)"

fun get_n :: "nat \<Rightarrow> TransferRequest list \<Rightarrow> TransferRequest list" where
  "get_n 0 q = []"
| "get_n (Suc n) q =
     (case get_nowait q of None \<Rightarrow> [] | Some (x, q') \<Rightarrow> x # get_n n q')"

definition dequeue_order :: "TransferRequest list \<Rightarrow> TransferRequest list" where
  "dequeue_order rs = (let q = put_all [] rs in get_n (length q) q)"

text \<open>The sort key that \<open>__lt__\<close> compares, in the lexicographic order on pairs.\<close>

definition request_key :: "TransferRequest \<Rightarrow> int \<times> real" where
  "request_key r = (priority r, timestamp r)"

section \<open>Server state and the transfer endpoint\<close>

text \<open>
  The parts of the module's global state the endpoint can see: the hardware summary (the
  availability flags and planning budgets that \<open>detect_all_hardware\<close> stores), the layer
  registry (a dictionary, kept in insertion order) and the transfer queue.
\<close>

record hw_summary =
  gpu_available :: bool
  gpu_total_usable_vram_bytes_planning :: int
  ram_usable_bytes_for_planning :: int
  nvme_available :: bool
  nvme_server_usable_bytes_limit :: int
  ramdisk_available :: bool
  ramdisk_usable_bytes_for_server :: int

record server_state =
  hardware_summary :: hw_summary
  layer_metadata_registry :: "(int \<times> LayerMetadata) list"
  layer_transfer_queue :: "TransferRequest list"

text \<open>
  The body of the request, \<open>TransferRequestAPI\<close>, with its fields prefixed by \<open>api\<close>.
  The framework has validated it (a priority from 1 to 10, 5 when absent) before the
  endpoint runs.
\<close>

record TransferRequestAPI =
  api_layer_id :: int
  api_destination_device :: string
  api_priority :: int

datatype http_detail = LayerNotFound int | InvalidDestinationFormat | TransferQueueFull

datatype HTTPException = HTTPException int http_detail

type_synonym transfer_response = "string \<times> int \<times> string"

definition valid_prefixes :: "string list" where
  "valid_prefixes = [''cpu'', ''gpu'', ''ramdisk'', ''nvme'']"

text \<open>
  \<open>api_transfer_layer\<close>.  Each \<open>raise HTTPException\<close> is a left result and leaves the
  state as it was; the accepted request is pushed on the queue.
\<close>

definition api_transfer_layer ::
  "real \<Rightarrow> TransferRequestAPI \<Rightarrow> server_state \<Rightarrow> (HTTPException + transfer_response) \<times> server_state" where
  "api_transfer_layer now req_api st =
     (case map_of (layer_metadata_registry st) (api_layer_id req_api) of
        None \<Rightarrow> (Inl (HTTPException 404 (LayerNotFound (api_layer_id req_api))), st)
      | Some meta \<Rightarrow>
          if \<not> list_ex (\<lambda>p. prefix p (api_destination_device req_api)) valid_prefixes
          then (Inl (HTTPException 400 InvalidDestinationFormat), st)
          else (let transfer_obj =
                      TransferRequest_init (layer_meta_id meta) (current_device meta)
                        (api_destination_device req_api) (api_priority req_api) None None now
                in case put_nowait (layer_transfer_queue st) transfer_obj of
                     None \<Rightarrow> (Inl (HTTPException 503 TransferQueueFull), st)
                   | Some q \<Rightarrow>
                       (Inr (''Transfer request queued.'', layer_meta_id meta,
                             api_destination_device req_api),
                        st\<lparr> layer_transfer_queue := q \<rparr>)))"

definition accepted :: "(HTTPException + transfer_response) \<Rightarrow> bool" where
  "accepted res = (case res of Inl e \<Rightarrow> False | Inr ok \<Rightarrow> True)"

text \<open>
  The entry \<open>layer_metadata_registry[lid]\<close> after \<open>set_location\<close> has been called on it; the
  other entries are untouched.
\<close>

definition registry_set_location ::
  "int \<Rightarrow> string \<Rightarrow> string option \<Rightarrow> int option \<Rightarrow> (int \<times> LayerMetadata) list \<Rightarrow>
   (int \<times> LayerMetadata) list" where
  "registry_set_location lid device_type_str path_val gpu_id_val registry =
     map (\<lambda>(k, m). if k = lid then (k, set_location device_type_str path_val gpu_id_val m)
                    else (k, m)) registry"

section \<open>Accelerator capacity detection (HardwareManager.detect_all_hardware)\<close>

text \<open>
  The usable memory of a device is computed in Python floats, which are IEEE-754 binary64
  numbers.  A finite float is the rational it denotes.  \<open>round_half_even\<close> rounds a
  rational to the nearest integer, ties to the even one.
\<close>

definition round_half_even :: "rat \<Rightarrow> int" where
  "round_half_even x =
     (let f = \<lfloor>x\<rfloor>; r = x - of_int f
      in if r < 1 / 2 then f else if 1 / 2 < r then f + 1 else if even f then f else f + 1)"

text \<open>
  The binary exponent of a positive rational \<open>x\<close>: the \<open>e\<close> with
  \<open>2 powi e \<le> x < 2 powi (e + 1)\<close>, found from the bit lengths of numerator and
  denominator.
\<close>

definition binary64_exponent :: "rat \<Rightarrow> int" where
  "binary64_exponent x =
     (let (n, d) = quotient_of x; k = bitlen n - bitlen d
      in if 2 powi k \<le> x then k else k - 1)"

text \<open>
  Rounding a rational to binary64, to nearest with ties to even: 53 significant bits, the
  spacing of the subnormal numbers below \<open>2 powi (- 1022)\<close>, and \<open>None\<close> when the
  rounded magnitude reaches \<open>2 powi 1024\<close>, where the float is infinite (converting such
  an \<open>int\<close> raises \<open>OverflowError\<close>, and so does \<open>int()\<close> of an infinite float).
\<close>

definition round_binary64 :: "rat \<Rightarrow> rat option" where
  "round_binary64 x =
     (if x = 0 then Some 0
      else (let a = \<bar>x\<bar>;
                e = max (binary64_exponent a) (- 1022);
                ulp = 2 powi (e - 52);
                v = of_int (round_half_even (a / ulp)) * ulp
            in if 2 powi 1024 \<le> v then None else Some (sgn x * v)))"

text \<open>
  \<open>int(x)\<close> on a float truncates toward zero.
\<close>

definition py_int :: "rat \<Rightarrow> int" where
  "py_int x = (if 0 \<le> x then \<lfloor>x\<rfloor> else \<lceil>x\<rceil>)"

text \<open>
  Line 335 and the \<open>max\<close> after it, for integer configuration values (the
  defaults and the configuration file the server writes are integers):
  \<open>int((props.total_memory - (reserved_vram_mb * 1024*1024)) * (max_util_pct / 100.0))\<close>.
  The difference is exact integer arithmetic; \<open>max_util_pct\<close> is converted to a float
  and divided by \<open>100.0\<close>; the difference is converted to a float and multiplied by the
  quotient; the product is truncated.  \<open>None\<close> is an \<open>OverflowError\<close>.
\<close>

definition usable_vram_for_gpu :: "int \<Rightarrow> int \<Rightarrow> int \<Rightarrow> int option" where
  "usable_vram_for_gpu total_memory reserved_vram_mb max_util_pct =
     (case round_binary64 (of_int max_util_pct) of None \<Rightarrow> None | Some fp \<Rightarrow>
      case round_binary64 (fp / 100) of None \<Rightarrow> None | Some q \<Rightarrow>
      case round_binary64 (of_int (total_memory - reserved_vram_mb * 1024 * 1024)) of None \<Rightarrow> None | Some fa \<Rightarrow>
      case round_binary64 (fa * q) of None \<Rightarrow> None | Some p \<Rightarrow> Some (max 0 (py_int p)))"

text \<open>
  The GPU part of the configuration.  The two per-device dictionaries are read at the keys
  \<open>str(i)\<close> only, so they are keyed by the device index here; a missing dictionary is
  empty, a missing default is \<open>None\<close>.
\<close>

record gpu_cfg =
  reserved_vram_mb_per_gpu :: "(nat \<times> int) list"
  reserved_vram_mb_default :: "int option"
  max_utilization_percent_per_gpu :: "(nat \<times> int) list"
  max_utilization_percent_default :: "int option"

text \<open>
  \<open>gpu_cfg.get("reserved_vram_mb_per_gpu", {}).get(str(i),
  gpu_cfg.get("reserved_vram_mb_default", 256))\<close>, and the same for the utilisation
  percentage with the default 90.
\<close>

definition reserved_vram_mb_of :: "gpu_cfg \<Rightarrow> nat \<Rightarrow> int" where
  "reserved_vram_mb_of cfg i =
     (case map_of (reserved_vram_mb_per_gpu cfg) i of
        Some v \<Rightarrow> v
      | None \<Rightarrow> (case reserved_vram_mb_default cfg of Some v \<Rightarrow> v | None \<Rightarrow> 256))"

definition max_util_pct_of :: "gpu_cfg \<Rightarrow> nat \<Rightarrow> int" where
  "max_util_pct_of cfg i =
     (case map_of (max_utilization_percent_per_gpu cfg) i of
        Some v \<Rightarrow> v
      | None \<Rightarrow> (case max_utilization_percent_default cfg of Some v \<Rightarrow> v | None \<Rightarrow> 90))"

text \<open>
  The entry appended to \<open>hardware_summary["gpu"]["devices"]\<close> (the device name and
  compute capability are copied from the device properties and left out here).
\<close>

record gpu_device =
  device_id :: nat
  total_memory_bytes :: int
  usable_memory_bytes_planning :: int

text \<open>
  The loop over \<open>range(count)\<close>: \<open>props\<close> holds \<open>total_memory\<close> of the devices
  from index \<open>i\<close> on, \<open>devices\<close> is the list being appended to and
  \<open>total_usable_vram_b\<close> the running sum.  \<open>detect_gpus\<close> is the GPU section of
  \<open>detect_all_hardware\<close>: without CUDA the count is 0, nothing is appended and the
  total is 0.
\<close>

fun detect_gpu_devices ::
  "gpu_cfg \<Rightarrow> nat \<Rightarrow> int list \<Rightarrow> gpu_device list \<Rightarrow> int \<Rightarrow> (gpu_device list \<times> int) option" where
  "detect_gpu_devices cfg i [] devices total_usable_vram_b = Some (devices, total_usable_vram_b)"
| "detect_gpu_devices cfg i (total_memory # props) devices total_usable_vram_b =
     (case usable_vram_for_gpu total_memory (reserved_vram_mb_of cfg i) (max_util_pct_of cfg i) of
        None \<Rightarrow> None
      | Some usable_vram_for_gpu_b \<Rightarrow>
          detect_gpu_devices cfg (Suc i) props
            (devices @ [\<lparr> device_id = i, total_memory_bytes = total_memory,
                          usable_memory_bytes_planning = usable_vram_for_gpu_b \<rparr>])
            (total_usable_vram_b + usable_vram_for_gpu_b))"

definition detect_gpus ::
  "gpu_cfg \<Rightarrow> bool \<Rightarrow> int list \<Rightarrow> gpu_device list \<Rightarrow> (gpu_device list \<times> int) option" where
  "detect_gpus cfg cuda_available props devices =
     (if cuda_available then detect_gpu_devices cfg 0 props devices 0 else Some (devices, 0))"

text \<open>
  The specification's formula for the usable memory of a device, in exact arithmetic, to
  compare with \<open>usable_vram_for_gpu\<close>.
\<close>

definition spec_usable_vram :: "int \<Rightarrow> int \<Rightarrow> int \<Rightarrow> rat" where
  "spec_usable_vram total_memory reserved_vram_mb max_util_pct =
     max 0 (of_int (total_memory - reserved_vram_mb * 2 ^ 20) * of_int max_util_pct / 100)"

section \<open>Capacity accounting and transfer execution, as the specification words them\<close>

text \<open>
  Modelled from the spec: the per-tier CapacityBudget of section 3 (total capacity, reserved
  bytes, utilisation ceiling).  The source has no such record; the ceiling is held as a
  percentage, as the source's configuration holds it.
\<close>

record CapacityBudget =
  total_capacity_bytes :: int
  reserved_bytes :: int
  max_utilization_percent :: int

text \<open>
  Modelled from the spec: \<open>currently_used_bytes\<close> of a tier, the sum of
  \<open>current_size_bytes\<close> over the layers whose current tier is that tier.  The source sums
  no layer sizes.
\<close>

definition currently_used_bytes :: "(int \<times> LayerMetadata) list \<Rightarrow> string \<Rightarrow> int" where
  "currently_used_bytes registry tier =
     sum_list (map (\<lambda>(k, m). current_size_bytes m)
                   (filter (\<lambda>(k, m). current_device m = tier) registry))"

text \<open>
  Modelled from the spec: the budget invariant
  \<open>currently_used_bytes + reserved_bytes \<le> total_capacity_bytes * max_utilization_fraction\<close>,
  with the fraction as a percentage so that it is stated over integers.  The source makes
  no such comparison.
\<close>

definition capacity_bound_holds :: "CapacityBudget \<Rightarrow> int \<Rightarrow> bool" where
  "capacity_bound_holds b used =
     ((used + reserved_bytes b) * 100 \<le> total_capacity_bytes b * max_utilization_percent b)"

text \<open>
  Modelled from the spec: the outcome of the write to the destination tier's store, which
  the source never performs: an I/O failure with its cause, or the new location (a path
  or an accelerator id).
\<close>

datatype write_outcome = WriteFailed string | WriteOk "string option" "int option"

text \<open>
  Modelled from the spec: the wrapped error \<open>IOFailure(tier, cause)\<close> of section 7, as the
  message that is handed to \<open>update_status\<close>.
\<close>

definition io_failure_message :: "string \<Rightarrow> string \<Rightarrow> string" where
  "io_failure_message tier cause = ''IOFailure('' @ tier @ '', '' @ cause @ '')''"

text \<open>
  Modelled from the spec: the execution step of a claimed transfer (section 4.3), which the
  source does not contain (nothing takes requests off \<open>layer_transfer_queue\<close>).  The
  outcome of the write is an argument.  Following the specification's words, the request
  goes to \<open>in_progress\<close>; on success \<open>set_location\<close> is called on the layer and the request
  is completed; on an I/O failure the registry is left as it is and the request is marked
  failed with the wrapped error.  \<open>set_location\<close> and \<open>update_status\<close> are the source's.
\<close>

definition execute_transfer ::
  "write_outcome \<Rightarrow> TransferRequest \<Rightarrow> (int \<times> LayerMetadata) list \<Rightarrow>
   (int \<times> LayerMetadata) list \<times> TransferRequest \<times> callback_call list" where
  "execute_transfer outcome req registry =
     (let (r1, calls1) = update_status ''in_progress'' None req
      in case outcome of
           WriteFailed cause \<Rightarrow>
             (let (r2, calls2) =
                    update_status ''failed''
                      (Some (io_failure_message (destination_device req) cause)) r1
              in (registry, r2, calls1 @ calls2))
         | WriteOk path_val gpu_id_val \<Rightarrow>
             (let (r2, calls2) = update_status ''completed'' None r1
              in (registry_set_location (layer_id req) (destination_device req)
                    path_val gpu_id_val registry,
                  r2, calls1 @ calls2)))"

section \<open>Example states\<close>

text \<open>Concrete layers, states and request lists on which the results below are evaluated.\<close>

definition layer7 :: "string \<Rightarrow> LayerMetadata" where
  "layer7 dev = LayerMetadata_init 7 ''blocks.7.weight'' 314572800 [75, 1024, 1024] ''float32'' dev
     (Some 0) None None None None None False"

definition hw0 :: hw_summary where
  "hw0 = \<lparr> gpu_available = True, gpu_total_usable_vram_bytes_planning = 8000000000,
           ram_usable_bytes_for_planning = 16000000000,
           nvme_available = False, nvme_server_usable_bytes_limit = 0,
           ramdisk_available = True, ramdisk_usable_bytes_for_server = 99614720 \<rparr>"

definition st0 :: "string \<Rightarrow> TransferRequest list \<Rightarrow> server_state" where
  "st0 dev q = \<lparr> hardware_summary = hw0, layer_metadata_registry = [(7, layer7 dev)],
                 layer_transfer_queue = q \<rparr>"

definition full_queue :: "TransferRequest list" where
  "full_queue = replicate 200 (TransferRequest_init 7 ''gpu'' ''cpu'' 5 None None 1)"

definition band_requests :: "TransferRequest list" where
  "band_requests =
     [TransferRequest_init 1 ''gpu'' ''cpu'' 5 None None 10,
      TransferRequest_init 2 ''gpu'' ''cpu'' 1 None None 11,
      TransferRequest_init 3 ''gpu'' ''cpu'' 5 None None 12,
      TransferRequest_init 4 ''gpu'' ''cpu'' 3 None None 13]"

definition tied_requests :: "TransferRequest list" where
  "tied_requests =
     [TransferRequest_init 1 ''gpu'' ''cpu'' 5 None None 10,
      TransferRequest_init 2 ''gpu'' ''cpu'' 5 None None 10,
      TransferRequest_init 3 ''gpu'' ''cpu'' 5 None None 10,
      TransferRequest_init 4 ''gpu'' ''cpu'' 5 None None 10]"

definition default_gpu_cfg :: gpu_cfg where
  "default_gpu_cfg = \<lparr> reserved_vram_mb_per_gpu = [], reserved_vram_mb_default = Some 256,
       max_utilization_percent_per_gpu = [], max_utilization_percent_default = Some 90 \<rparr>"

definition tight_gpu_cfg :: gpu_cfg where
  "tight_gpu_cfg = \<lparr> reserved_vram_mb_per_gpu = [(1, 256)], reserved_vram_mb_default = Some 0,
       max_utilization_percent_per_gpu = [], max_utilization_percent_default = Some 29 \<rparr>"

section \<open>Heap invariants used in the proofs\<close>

text \<open>
  The list is a binary heap when every entry's key is at least its parent's
  (\<open>heap_inv\<close>).  While an item is sifted the list has a hole: \<open>heap_except\<close> and
  \<open>grand_ok\<close> describe the list with the item written into the hole on its way to the
  root, \<open>hole_inv\<close> the list with an open hole on its way to a leaf.  The loop equations
  are unfolded by hand in the proofs.
\<close>

declare siftdown_loop.simps [simp del] siftup_loop.simps [simp del]

definition parent :: "nat \<Rightarrow> nat" where
  "parent i = (i - 1) div 2"

definition heap_inv :: "TransferRequest list \<Rightarrow> bool" where
  "heap_inv h = (\<forall>i<length h. 0 < i \<longrightarrow> request_key (h ! parent i) \<le> request_key (h ! i))"

definition heap_except :: "TransferRequest list \<Rightarrow> nat \<Rightarrow> bool" where
  "heap_except h p =
     (\<forall>i<length h. 0 < i \<longrightarrow> i \<noteq> p \<longrightarrow> request_key (h ! parent i) \<le> request_key (h ! i))"

definition grand_ok :: "TransferRequest list \<Rightarrow> nat \<Rightarrow> bool" where
  "grand_ok h p =
     (0 < p \<longrightarrow> (\<forall>c<length h. 0 < c \<longrightarrow> parent c = p \<longrightarrow>
        request_key (h ! parent p) \<le> request_key (h ! c)))"

definition hole_inv :: "TransferRequest list \<Rightarrow> nat \<Rightarrow> bool" where
  "hole_inv h p =
     ((\<forall>i<length h. 0 < i \<longrightarrow> i \<noteq> p \<longrightarrow> parent i \<noteq> p \<longrightarrow>
         request_key (h ! parent i) \<le> request_key (h ! i)) \<and> grand_ok h p)"

section \<open>Properties of the layer metadata\<close>

lemma set_location_device [simp]:
  "current_device (set_location d p g m) = d"
  by (simp add: set_location_def Let_def)

lemma set_location_loaded [simp]:
  "loaded_in_memory (set_location d p g m) = (d \<noteq> ''nvme'')"
  by (simp add: set_location_def Let_def)

lemma set_location_consistent:
  "location_consistent (set_location d p g m)"
  by (simp add: set_location_def location_consistent_def Let_def)

lemma set_location_flag_ok:
  "loaded_flag_ok (set_location d p g m)"
  by (simp add: loaded_flag_ok_def)

lemma set_locations_flag_ok:
  "loaded_flag_ok m \<Longrightarrow> loaded_flag_ok (set_locations cs m)"
  by (induction cs arbitrary: m) (auto simp: set_location_flag_ok)

lemma init_flag_ok:
  "loaded_flag_ok (LayerMetadata_init lid nm osize shp dtype dev gid ctype qtype npath rpath qparams stripped)"
  by (simp add: loaded_flag_ok_def LayerMetadata_init_def)

lemma update_access_stats_flag_ok:
  "loaded_flag_ok (update_access_stats now m) = loaded_flag_ok m"
  by (simp add: loaded_flag_ok_def update_access_stats_def)

text \<open>
  Claim C10.  After construction, and after any run of \<open>set_location\<close> calls that follows
  it, \<open>loaded_in_memory\<close> is true exactly when the current device is not \<open>nvme\<close>; a layer
  on the RAM disk counts as loaded.
\<close>

theorem C10_loaded_in_memory_iff_not_nvme:
  "loaded_in_memory (set_locations cs
       (LayerMetadata_init lid nm osize shp dtype dev gid ctype qtype npath rpath qparams stripped))
     = (current_device (set_locations cs
       (LayerMetadata_init lid nm osize shp dtype dev gid ctype qtype npath rpath qparams stripped))
         \<noteq> ''nvme'')"
  using set_locations_flag_ok [OF init_flag_ok] by (simp add: loaded_flag_ok_def)

text \<open>
  Claim C7.  The constructor normalises \<open>gpu_id\<close> by the device tag but stores
  \<open>nvme_path\<close> and \<open>ramdisk_path\<close> as they are passed: a layer constructed on \<open>cpu\<close>
  with an NVMe path keeps that path, where \<open>set_location\<close> with the same arguments clears
  it.
\<close>

theorem C7_constructor_keeps_paths:
  "current_device (LayerMetadata_init 7 ''blocks.7.weight'' 314572800 [75, 1024, 1024] ''float32''
       ''cpu'' None None None (Some ''/mnt/nvme/layer_7.bin'') None None False) = ''cpu'' \<and>
   nvme_path (LayerMetadata_init 7 ''blocks.7.weight'' 314572800 [75, 1024, 1024] ''float32''
       ''cpu'' None None None (Some ''/mnt/nvme/layer_7.bin'') None None False)
     = Some ''/mnt/nvme/layer_7.bin'' \<and>
   nvme_path (set_location ''cpu'' (Some ''/mnt/nvme/layer_7.bin'') None
       (LayerMetadata_init 7 ''blocks.7.weight'' 314572800 [75, 1024, 1024] ''float32''
          ''cpu'' None None None (Some ''/mnt/nvme/layer_7.bin'') None None False)) = None"
  by (simp add: LayerMetadata_init_def set_location_def Let_def)

section \<open>Status updates and the completion callback\<close>

lemma update_status_callback [simp]: "callback (fst (update_status s e r)) = callback r"
  by (simp add: update_status_def Let_def split: option.splits)

lemma update_status_status [simp]: "status (fst (update_status s e r)) = s"
  by (simp add: update_status_def Let_def split: option.splits)

lemma update_status_calls:
  "snd (update_status s e r) =
     (if terminal_status s
      then (case callback r of None \<Rightarrow> []
            | Some cb \<Rightarrow> [(cb, layer_id r, s = ''completed'', error_message (fst (update_status s e r)))])
      else [])"
  by (auto simp: update_status_def Let_def terminal_status_def split: option.splits)

lemma update_status_calls_length:
  "length (snd (update_status s e r)) =
     (if terminal_status s \<and> callback r \<noteq> None then 1 else 0)"
  by (auto simp: update_status_calls split: option.splits)

lemma update_statuses_callback [simp]: "callback (fst (update_statuses cs r)) = callback r"
  by (induction cs arbitrary: r) (auto simp: Let_def split: prod.splits, metis fst_conv update_status_callback)

lemma update_statuses_count:
  "length (snd (update_statuses cs r)) =
     (if callback r = None then 0 else length (filter (\<lambda>c. terminal_status (fst c)) cs))"
proof (induction cs arbitrary: r)
  case Nil
  then show ?case by simp
next
  case (Cons c cs)
  obtain s e where c: "c = (s, e)" by (cases c)
  obtain r1 calls1 where u: "update_status s e r = (r1, calls1)" by (cases "update_status s e r")
  obtain r2 calls2 where v: "update_statuses cs r1 = (r2, calls2)" by (cases "update_statuses cs r1")
  have cb: "callback r1 = callback r" using update_status_callback[of s e r] u by simp
  have l1: "length calls1 = (if terminal_status s \<and> callback r \<noteq> None then 1 else 0)"
    using update_status_calls_length[of s e r] u by simp
  have l2: "length calls2 = (if callback r = None then 0 else length (filter (\<lambda>c. terminal_status (fst c)) cs))"
    using Cons.IH[of r1] v cb by simp
  show ?case using c u v l1 l2 by (simp add: Let_def)
qed

lemma update_statuses_last_status:
  "cs \<noteq> [] \<Longrightarrow> status (fst (update_statuses cs r)) = fst (last cs)"
proof (induction cs arbitrary: r)
  case Nil
  then show ?case by simp
next
  case (Cons c cs)
  obtain s e where c: "c = (s, e)" by (cases c)
  obtain r1 calls1 where u: "update_status s e r = (r1, calls1)" by (cases "update_status s e r")
  obtain r2 calls2 where v: "update_statuses cs r1 = (r2, calls2)" by (cases "update_statuses cs r1")
  have s1: "status r1 = s" using update_status_status[of s e r] u by simp
  show ?case
  proof (cases "cs = []")
    case True
    then show ?thesis using c u s1 by (simp add: Let_def)
  next
    case False
    then show ?thesis using Cons.IH[OF False, of r1] c u v by (simp add: Let_def)
  qed
qed

text \<open>
  Claim C6, as the code has it.  \<open>update_status\<close> enforces no lifecycle: every call sets
  the status to its argument, and the callback is invoked once for every call whose new
  status is \<open>completed\<close> or \<open>failed\<close>.  So a request with a callback sees exactly as many
  invocations as the run has terminal calls, and the status after a run is the last one
  given.
\<close>

theorem C6_callback_once_per_terminal_call:
  "length (snd (update_statuses cs r)) =
     (if callback r = None then 0 else length (filter (\<lambda>c. terminal_status (fst c)) cs)) \<and>
   (cs \<noteq> [] \<longrightarrow> status (fst (update_statuses cs r)) = fst (last cs))"
  using update_statuses_count update_statuses_last_status by blast

text \<open>
  The intended run \<open>in_progress\<close>, \<open>failed\<close> invokes the callback once.
\<close>

theorem C6_witness:
  "length (snd (update_statuses [(''in_progress'', None), (''failed'', Some ''disk full'')]
       (TransferRequest_init 7 ''gpu'' ''nvme'' 2 None (Some 0) 10))) = 1 \<and>
   status (fst (update_statuses [(''in_progress'', None), (''failed'', Some ''disk full'')]
       (TransferRequest_init 7 ''gpu'' ''nvme'' 2 None (Some 0) 10))) = ''failed''"
  using C6_callback_once_per_terminal_call
    [of "[(''in_progress'', None), (''failed'', Some ''disk full'')]"
        "TransferRequest_init 7 ''gpu'' ''nvme'' 2 None (Some 0) 10"]
  by (simp add: TransferRequest_init_def terminal_status_def)

text \<open>
  Two \<open>completed\<close> calls invoke the callback twice, and a later call moves a completed
  request back to \<open>pending\<close>.
\<close>

theorem C6_counterexample:
  "snd (update_statuses [(''completed'', None), (''completed'', None)]
       (TransferRequest_init 7 ''gpu'' ''nvme'' 2 None (Some 0) 10))
     = [(0, 7, True, None), (0, 7, True, None)] \<and>
   status (fst (update_statuses [(''completed'', None), (''pending'', None)]
       (TransferRequest_init 7 ''gpu'' ''nvme'' 2 None (Some 0) 10))) = ''pending''"
  by (simp add: TransferRequest_init_def update_status_def Let_def)

section \<open>The transfer endpoint\<close>

lemma api_transfer_layer_registry:
  "layer_metadata_registry (snd (api_transfer_layer now req st)) = layer_metadata_registry st"
  by (simp add: api_transfer_layer_def Let_def split: option.splits)

lemma api_transfer_layer_accepted:
  "accepted (fst (api_transfer_layer now req st)) \<longleftrightarrow>
     map_of (layer_metadata_registry st) (api_layer_id req) \<noteq> None \<and>
     list_ex (\<lambda>p. prefix p (api_destination_device req)) valid_prefixes \<and>
     length (layer_transfer_queue st) < maxsize"
  by (auto simp: api_transfer_layer_def accepted_def put_nowait_def maxsize_def Let_def
      split: option.splits)

lemma api_transfer_layer_queued:
  assumes "map_of (layer_metadata_registry st) (api_layer_id req) = Some meta"
    and "list_ex (\<lambda>p. prefix p (api_destination_device req)) valid_prefixes"
    and "length (layer_transfer_queue st) < maxsize"
  shows "api_transfer_layer now req st =
     (Inr (''Transfer request queued.'', layer_meta_id meta, api_destination_device req),
      st\<lparr> layer_transfer_queue := heappush (layer_transfer_queue st)
            (TransferRequest_init (layer_meta_id meta) (current_device meta)
               (api_destination_device req) (api_priority req) None None now) \<rparr>)"
  using assms by (simp add: api_transfer_layer_def put_nowait_def maxsize_def Let_def)

lemma heappush_empty: "heappush [] r = [r]"
  by (simp add: heappush_def heapq_siftdown_def siftdown_loop.simps)

lemma layer7_fields [simp]:
  "layer_meta_id (layer7 dev) = 7" "current_device (layer7 dev) = dev"
  by (simp_all add: layer7_def LayerMetadata_init_def)

text \<open>
  Claim C8, as the code has it.  When the queue already holds 200 entries every submission
  is rejected at once (\<open>put_nowait\<close> never waits) and the state, the queue included, is
  unchanged.  The layer and destination checks run before the queue is tried: an unknown
  layer gets 404, a destination without a valid prefix gets 400, and every other
  submission gets the 503 \<open>Layer transfer queue full\<close> rejection.
\<close>

theorem C8_full_queue_rejects:
  assumes "maxsize \<le> length (layer_transfer_queue st)"
  shows "api_transfer_layer now req st =
           (case map_of (layer_metadata_registry st) (api_layer_id req) of
              None \<Rightarrow> Inl (HTTPException 404 (LayerNotFound (api_layer_id req)))
            | Some meta \<Rightarrow>
                if list_ex (\<lambda>p. prefix p (api_destination_device req)) valid_prefixes
                then Inl (HTTPException 503 TransferQueueFull)
                else Inl (HTTPException 400 InvalidDestinationFormat),
            st) \<and>
         \<not> accepted (fst (api_transfer_layer now req st))"
  using assms
  by (auto simp: api_transfer_layer_def accepted_def put_nowait_def maxsize_def Let_def
      split: option.splits)

text \<open>
  A registered layer and a valid destination against a queue of 200 entries.
\<close>

theorem C8_witness:
  "maxsize \<le> length (layer_transfer_queue (st0 ''gpu'' full_queue)) \<and>
   api_transfer_layer 10
       \<lparr> api_layer_id = 7, api_destination_device = ''cpu'', api_priority = 5 \<rparr>
       (st0 ''gpu'' full_queue)
     = (Inl (HTTPException 503 TransferQueueFull), st0 ''gpu'' full_queue)"
proof -
  have a: "maxsize \<le> length (layer_transfer_queue (st0 ''gpu'' full_queue))"
    by (simp add: st0_def full_queue_def maxsize_def)
  have b: "map_of (layer_metadata_registry (st0 ''gpu'' full_queue))
             (api_layer_id \<lparr> api_layer_id = 7, api_destination_device = ''cpu'', api_priority = 5 \<rparr>)
           = Some (layer7 ''gpu'')"
    by (simp add: st0_def)
  have c: "list_ex (\<lambda>p. prefix p (api_destination_device
             \<lparr> api_layer_id = 7, api_destination_device = ''cpu'', api_priority = 5 \<rparr>)) valid_prefixes"
    by (simp add: valid_prefixes_def)
  show ?thesis
    using C8_full_queue_rejects[OF a, of 10
        "\<lparr> api_layer_id = 7, api_destination_device = ''cpu'', api_priority = 5 \<rparr>"] a b c
    by simp
qed

text \<open>
  On a full queue an unregistered layer is answered with 404 and a destination \<open>disk\<close>
  with 400, not with the queue-full rejection.
\<close>

theorem C8_counterexample:
  "length (layer_transfer_queue (st0 ''gpu'' full_queue)) = 200 \<and>
   api_transfer_layer 10
       \<lparr> api_layer_id = 8, api_destination_device = ''cpu'', api_priority = 5 \<rparr>
       (st0 ''gpu'' full_queue)
     = (Inl (HTTPException 404 (LayerNotFound 8)), st0 ''gpu'' full_queue) \<and>
   api_transfer_layer 10
       \<lparr> api_layer_id = 7, api_destination_device = ''disk'', api_priority = 5 \<rparr>
       (st0 ''gpu'' full_queue)
     = (Inl (HTTPException 400 InvalidDestinationFormat), st0 ''gpu'' full_queue)"
  by (simp add: st0_def full_queue_def api_transfer_layer_def valid_prefixes_def)

text \<open>
  Claim C4, as the code has it.  The endpoint never reads the hardware summary: for a
  registered layer, a destination with a valid prefix and a queue below 200 entries the
  request is queued, whatever the summary says about the destination tier.
\<close>

theorem C4_submit_ignores_availability:
  assumes "map_of (layer_metadata_registry st) (api_layer_id req) = Some meta"
    and "list_ex (\<lambda>p. prefix p (api_destination_device req)) valid_prefixes"
    and "length (layer_transfer_queue st) < maxsize"
  shows "api_transfer_layer now req (st\<lparr> hardware_summary := hw \<rparr>) =
     (Inr (''Transfer request queued.'', layer_meta_id meta, api_destination_device req),
      st\<lparr> hardware_summary := hw,
          layer_transfer_queue := heappush (layer_transfer_queue st)
            (TransferRequest_init (layer_meta_id meta) (current_device meta)
               (api_destination_device req) (api_priority req) None None now) \<rparr>)"
  using api_transfer_layer_queued[of "st\<lparr> hardware_summary := hw \<rparr>" req meta now] assms
  by simp

text \<open>
  A transfer to \<open>nvme\<close> while the summary marks NVMe unavailable is queued.
\<close>

theorem C4_witness:
  "api_transfer_layer 10
       \<lparr> api_layer_id = 7, api_destination_device = ''nvme'', api_priority = 5 \<rparr>
       ((st0 ''gpu'' [])\<lparr> hardware_summary := hw0\<lparr> nvme_available := False \<rparr> \<rparr>)
     = (Inr (''Transfer request queued.'', 7, ''nvme''),
        (st0 ''gpu'' [])\<lparr> hardware_summary := hw0\<lparr> nvme_available := False \<rparr>,
          layer_transfer_queue := [TransferRequest_init 7 ''gpu'' ''nvme'' 5 None None 10] \<rparr>)"
proof -
  have a: "map_of (layer_metadata_registry (st0 ''gpu'' [])) 
             (api_layer_id \<lparr> api_layer_id = 7, api_destination_device = ''nvme'', api_priority = 5 \<rparr>)
           = Some (layer7 ''gpu'')"
    by (simp add: st0_def)
  have b: "list_ex (\<lambda>p. prefix p (api_destination_device
             \<lparr> api_layer_id = 7, api_destination_device = ''nvme'', api_priority = 5 \<rparr>)) valid_prefixes"
    by (simp add: valid_prefixes_def)
  have c: "length (layer_transfer_queue (st0 ''gpu'' [])) < maxsize"
    by (simp add: st0_def maxsize_def)
  show ?thesis
    using C4_submit_ignores_availability[OF a b c, of 10 "hw0\<lparr> nvme_available := False \<rparr>"]
    by (simp add: st0_def heappush_empty)
qed

text \<open>
  With NVMe marked unavailable the request to \<open>nvme\<close> is accepted and sits on the
  queue.
\<close>

theorem C4_counterexample:
  "\<not> nvme_available (hardware_summary (st0 ''gpu'' [])) \<and>
   api_transfer_layer 10
       \<lparr> api_layer_id = 7, api_destination_device = ''nvme'', api_priority = 5 \<rparr>
       (st0 ''gpu'' [])
     = (Inr (''Transfer request queued.'', 7, ''nvme''),
        st0 ''gpu'' [TransferRequest_init 7 ''gpu'' ''nvme'' 5 None None 10])"
  by (simp add: st0_def hw0_def api_transfer_layer_def valid_prefixes_def put_nowait_def
      maxsize_def heappush_empty Let_def)

text \<open>
  Claim C5, as the code has it.  A request for a registered layer whose destination is the
  layer's current device, submitted while the queue holds fewer than 200 entries, is
  treated like any other: when the device string starts with \<open>cpu\<close>, \<open>gpu\<close>,
  \<open>ramdisk\<close> or \<open>nvme\<close> it is queued with status \<open>pending\<close>, otherwise it is
  rejected with 400.  Either way the layer's registry entry (location and access count) is
  as it was.
\<close>

theorem C5_same_tier_is_queued:
  assumes "map_of (layer_metadata_registry st) (api_layer_id req) = Some meta"
    and "api_destination_device req = current_device meta"
    and "length (layer_transfer_queue st) < maxsize"
  shows "(list_ex (\<lambda>p. prefix p (current_device meta)) valid_prefixes \<longrightarrow>
            api_transfer_layer now req st =
              (Inr (''Transfer request queued.'', layer_meta_id meta, current_device meta),
               st\<lparr> layer_transfer_queue := heappush (layer_transfer_queue st)
                     (TransferRequest_init (layer_meta_id meta) (current_device meta)
                        (current_device meta) (api_priority req) None None now) \<rparr>) \<and>
            status (TransferRequest_init (layer_meta_id meta) (current_device meta)
                      (current_device meta) (api_priority req) None None now) = ''pending'') \<and>
         (\<not> list_ex (\<lambda>p. prefix p (current_device meta)) valid_prefixes \<longrightarrow>
            api_transfer_layer now req st = (Inl (HTTPException 400 InvalidDestinationFormat), st)) \<and>
         map_of (layer_metadata_registry (snd (api_transfer_layer now req st))) (api_layer_id req)
           = Some meta"
  using assms
  by (simp add: api_transfer_layer_def put_nowait_def maxsize_def Let_def TransferRequest_init_def)

text \<open>
  A layer on \<open>cpu\<close> asked to move to \<open>cpu\<close> is queued; a layer registered on a
  device \<open>disk\<close> asked to move to \<open>disk\<close> is rejected.
\<close>

theorem C5_witness:
  "api_transfer_layer 10
       \<lparr> api_layer_id = 7, api_destination_device = ''cpu'', api_priority = 5 \<rparr>
       (st0 ''cpu'' [])
     = (Inr (''Transfer request queued.'', 7, ''cpu''),
        st0 ''cpu'' [TransferRequest_init 7 ''cpu'' ''cpu'' 5 None None 10]) \<and>
   api_transfer_layer 10
       \<lparr> api_layer_id = 7, api_destination_device = ''disk'', api_priority = 5 \<rparr>
       (st0 ''disk'' [])
     = (Inl (HTTPException 400 InvalidDestinationFormat), st0 ''disk'' []) \<and>
   map_of (layer_metadata_registry (snd (api_transfer_layer 10
       \<lparr> api_layer_id = 7, api_destination_device = ''cpu'', api_priority = 5 \<rparr>
       (st0 ''cpu'' [])))) 7 = Some (layer7 ''cpu'')"
proof -
  have a: "map_of (layer_metadata_registry (st0 dev []))
             (api_layer_id \<lparr> api_layer_id = 7, api_destination_device = dev, api_priority = 5 \<rparr>)
           = Some (layer7 dev)" for dev
    by (simp add: st0_def)
  have b: "api_destination_device \<lparr> api_layer_id = 7, api_destination_device = dev, api_priority = 5 \<rparr>
           = current_device (layer7 dev)" for dev
    by simp
  have d: "length (layer_transfer_queue (st0 dev [])) < maxsize" for dev
    by (simp add: st0_def maxsize_def)
  have c: "list_ex (\<lambda>p. prefix p (current_device (layer7 ''cpu''))) valid_prefixes"
    by (simp add: valid_prefixes_def)
  have c': "\<not> list_ex (\<lambda>p. prefix p (current_device (layer7 ''disk''))) valid_prefixes"
    by (simp add: valid_prefixes_def)
  show ?thesis
    using C5_same_tier_is_queued[OF a b d, of "''cpu''" 10]
      C5_same_tier_is_queued[OF a b d, of "''disk''" 10] c c'
    by (simp add: st0_def heappush_empty)
qed

text \<open>
  The same-tier request is not completed on submission: it is on the queue, pending.
\<close>

theorem C5_counterexample:
  "api_transfer_layer 10
       \<lparr> api_layer_id = 7, api_destination_device = ''cpu'', api_priority = 5 \<rparr>
       (st0 ''cpu'' [])
     = (Inr (''Transfer request queued.'', 7, ''cpu''),
        st0 ''cpu'' [TransferRequest_init 7 ''cpu'' ''cpu'' 5 None None 10]) \<and>
   status (TransferRequest_init 7 ''cpu'' ''cpu'' 5 None None 10) = ''pending'' \<and>
   ''pending'' \<noteq> ''completed''"
  by (simp add: st0_def api_transfer_layer_def valid_prefixes_def put_nowait_def
      maxsize_def heappush_empty Let_def TransferRequest_init_def)

text \<open>
  Claim C1, as the code has it.  The endpoint makes no capacity check.  A submission never
  changes the registry, so every tier's used bytes are what they were, and whether it is
  accepted depends only on the layer being registered, the destination prefix and the
  queue length.
\<close>

theorem C1_submit_ignores_capacity:
  "layer_metadata_registry (snd (api_transfer_layer now req st)) = layer_metadata_registry st \<and>
   currently_used_bytes (layer_metadata_registry (snd (api_transfer_layer now req st))) tier
     = currently_used_bytes (layer_metadata_registry st) tier \<and>
   (accepted (fst (api_transfer_layer now req st)) \<longleftrightarrow>
      map_of (layer_metadata_registry st) (api_layer_id req) \<noteq> None \<and>
      list_ex (\<lambda>p. prefix p (api_destination_device req)) valid_prefixes \<and>
      length (layer_transfer_queue st) < maxsize)"
  using api_transfer_layer_registry api_transfer_layer_accepted by simp

text \<open>
  A 300 MiB layer is accepted for the RAM disk, and no used bytes change.
\<close>

theorem C1_witness:
  "accepted (fst (api_transfer_layer 10
       \<lparr> api_layer_id = 7, api_destination_device = ''ramdisk'', api_priority = 2 \<rparr>
       (st0 ''gpu'' []))) \<and>
   currently_used_bytes (layer_metadata_registry (snd (api_transfer_layer 10
       \<lparr> api_layer_id = 7, api_destination_device = ''ramdisk'', api_priority = 2 \<rparr>
       (st0 ''gpu'' [])))) ''ramdisk'' = 0"
  using C1_submit_ignores_capacity
    [of 10 "\<lparr> api_layer_id = 7, api_destination_device = ''ramdisk'', api_priority = 2 \<rparr>"
        "st0 ''gpu'' []" "''ramdisk''"]
  by (simp add: st0_def valid_prefixes_def maxsize_def currently_used_bytes_def)

text \<open>
  Moving the 300 MiB layer to a RAM disk of 100 MiB with a 95 percent ceiling would break
  the bound, and the request is accepted and queued all the same.
\<close>

theorem C1_counterexample:
  "\<not> capacity_bound_holds
       \<lparr> total_capacity_bytes = 104857600, reserved_bytes = 0, max_utilization_percent = 95 \<rparr>
       (currently_used_bytes
          (registry_set_location 7 ''ramdisk'' None None [(7, layer7 ''gpu'')]) ''ramdisk'') \<and>
   api_transfer_layer 10
       \<lparr> api_layer_id = 7, api_destination_device = ''ramdisk'', api_priority = 2 \<rparr>
       \<lparr> hardware_summary = hw0, layer_metadata_registry = [(7, layer7 ''gpu'')],
         layer_transfer_queue = [] \<rparr>
     = (Inr (''Transfer request queued.'', 7, ''ramdisk''),
        \<lparr> hardware_summary = hw0, layer_metadata_registry = [(7, layer7 ''gpu'')],
          layer_transfer_queue = [TransferRequest_init 7 ''gpu'' ''ramdisk'' 2 None None 10] \<rparr>)"
  by (simp add: capacity_bound_holds_def currently_used_bytes_def registry_set_location_def
      set_location_def layer7_def LayerMetadata_init_def api_transfer_layer_def valid_prefixes_def
      put_nowait_def maxsize_def heappush_empty Let_def)

section \<open>A failed write\<close>

lemma registry_unchanged_on_failure:
  "fst (execute_transfer (WriteFailed cause) req registry) = registry"
  by (simp add: execute_transfer_def Let_def split: prod.splits)

text \<open>
  Claim C2.  When the write to the destination fails, the registry (every layer's device,
  paths, accelerator id and size) is what it was before the transfer, and the request is
  failed with the wrapped I/O error as its message.
\<close>

theorem C2_failed_write_leaves_location:
  "fst (execute_transfer (WriteFailed cause) req registry) = registry \<and>
   status (fst (snd (execute_transfer (WriteFailed cause) req registry))) = ''failed'' \<and>
   error_message (fst (snd (execute_transfer (WriteFailed cause) req registry)))
     = Some (io_failure_message (destination_device req) cause)"
  by (simp add: execute_transfer_def update_status_def io_failure_message_def Let_def
      split: prod.splits)

section \<open>The heap behind the transfer queue\<close>

lemma request_lt_key: "request_lt a b \<longleftrightarrow> request_key a < request_key b"
  by (auto simp: request_lt_def request_key_def less_prod_def)

lemma not_request_lt_key: "\<not> request_lt a b \<longleftrightarrow> request_key b \<le> request_key a"
  by (simp add: request_lt_key not_less)

lemma parent_less: "0 < i \<Longrightarrow> parent i < i"
  unfolding parent_def by arith

lemma parent_eq: "0 < c \<Longrightarrow> parent c = p \<longleftrightarrow> c = 2 * p + 1 \<or> c = 2 * p + 2"
  unfolding parent_def by arith

lemma siftdown_loop_length [simp]: "length (siftdown_loop h s p x) = length h"
  by (induction h s p x rule: siftdown_loop.induct) (subst siftdown_loop.simps, simp add: Let_def)

lemma mset_hole_move:
  "p < length h \<Longrightarrow> q < length h \<Longrightarrow> p \<noteq> q \<Longrightarrow> mset (h[p := h ! q, q := x]) = mset (h[p := x])"
  by (simp add: mset_update nth_list_update)

lemma siftdown_loop_mset:
  "p < length h \<Longrightarrow> mset (siftdown_loop h s p x) = mset (h[p := x])"
proof (induction h s p x rule: siftdown_loop.induct)
  case (1 heap startpos pos newitem)
  show ?case
  proof (cases "pos > startpos \<and> request_lt newitem (heap ! ((pos - 1) div 2))")
    case True
    have pp: "(pos - 1) div 2 < pos" using True by arith
    have "mset (siftdown_loop (heap[pos := heap ! ((pos - 1) div 2)]) startpos ((pos - 1) div 2) newitem)
          = mset (heap[pos := heap ! ((pos - 1) div 2), (pos - 1) div 2 := newitem])"
      using "1.IH"[OF _ refl refl] True pp "1.prems" by simp
    also have "\<dots> = mset (heap[pos := newitem])"
      using mset_hole_move[of pos heap "(pos - 1) div 2" newitem] pp "1.prems" by simp
    finally show ?thesis using True by (subst siftdown_loop.simps) (simp add: Let_def)
  next
    case False
    then show ?thesis by (subst siftdown_loop.simps) (auto simp: Let_def)
  qed
qed


lemma siftdown_swap_inv:
  assumes p: "p < length h" "0 < p"
    and lt: "request_key x < request_key (h ! parent p)"
    and ex: "heap_except (h[p := x]) p"
    and gr: "grand_ok (h[p := x]) p"
  shows "heap_except (h[p := h ! parent p, parent p := x]) (parent p)"
    and "grand_ok (h[p := h ! parent p, parent p := x]) (parent p)"
proof -
  let ?q = "parent p"
  let ?f = "h[p := x]"
  let ?g = "h[p := h ! ?q, ?q := x]"
  have qp: "?q < p" using p by (simp add: parent_less)
  have fq: "?f ! ?q = h ! ?q" using qp by simp
  have edge: "\<And>i. i < length h \<Longrightarrow> 0 < i \<Longrightarrow> i \<noteq> p \<Longrightarrow>
      request_key (?f ! parent i) \<le> request_key (?f ! i)"
    using ex by (simp add: heap_except_def)
  have child: "\<And>c. c < length h \<Longrightarrow> 0 < c \<Longrightarrow> parent c = p \<Longrightarrow>
      request_key (h ! ?q) \<le> request_key (?f ! c)"
    using gr p fq by (simp add: grand_ok_def)
  show "heap_except ?g ?q"
    unfolding heap_except_def
  proof (intro allI impI)
    fix i assume i: "i < length ?g" "0 < i" "i \<noteq> ?q"
    then have il: "i < length h" by simp
    have pi: "parent i < i" using i by (simp add: parent_less)
    show "request_key (?g ! parent i) \<le> request_key (?g ! i)"
    proof (cases "i = p")
      case True
      then show ?thesis using p qp lt by simp
    next
      case ip: False
      show ?thesis
      proof (cases "parent i = p")
        case True
        then have "request_key (h ! ?q) \<le> request_key (?f ! i)" using child il i by simp
        then show ?thesis using True ip i p qp pi by simp
      next
        case npp: False
        show ?thesis
        proof (cases "parent i = ?q")
          case True
          have "request_key (?f ! parent i) \<le> request_key (?f ! i)" using edge il i ip by simp
          then have "request_key (h ! ?q) \<le> request_key (h ! i)" using True ip qp by simp
          then have "request_key x \<le> request_key (h ! i)" using lt by simp
          moreover have "?q < length h" using qp p by simp
          ultimately show ?thesis using True ip i p il by simp
        next
          case False
          have "request_key (?f ! parent i) \<le> request_key (?f ! i)" using edge il i ip by simp
          then show ?thesis using False npp ip i by simp
        qed
      qed
    qed
  qed
  show "grand_ok ?g ?q"
    unfolding grand_ok_def
  proof (intro allI impI)
    fix c assume q0: "0 < ?q" and c: "c < length ?g" "0 < c" "parent c = ?q"
    have qq: "parent ?q < ?q" using q0 by (simp add: parent_less)
    have ql: "?q < length h" using qp p by simp
    have e1: "request_key (h ! parent ?q) \<le> request_key (h ! ?q)"
      using edge[of ?q] ql q0 qp qq by simp
    show "request_key (?g ! parent ?q) \<le> request_key (?g ! c)"
    proof (cases "c = p")
      case True
      then show ?thesis using e1 qq qp p by simp
    next
      case False
      have "request_key (?f ! parent c) \<le> request_key (?f ! c)" using edge[of c] c False by simp
      then have "request_key (h ! ?q) \<le> request_key (h ! c)" using c False qp by simp
      then have "request_key (h ! parent ?q) \<le> request_key (h ! c)" using e1 by simp
      moreover have "c \<noteq> ?q" using parent_less[of c] c by simp
      ultimately show ?thesis using c False qq qp by simp
    qed
  qed
qed

lemma siftdown_loop_inv:
  "p < length h \<Longrightarrow> s = 0 \<Longrightarrow> heap_except (h[p := x]) p \<Longrightarrow> grand_ok (h[p := x]) p \<Longrightarrow>
   heap_inv (siftdown_loop h s p x)"
proof (induction h s p x rule: siftdown_loop.induct)
  case (1 heap startpos pos newitem)
  show ?case
  proof (cases "pos > startpos")
    case False
    then have "pos = 0" using "1.prems" by simp
    then have "heap_inv (heap[pos := newitem])"
      using "1.prems" by (auto simp: heap_inv_def heap_except_def)
    then show ?thesis using False by (subst siftdown_loop.simps) simp
  next
    case pos: True
    then have p0: "0 < pos" by simp
    have par: "(pos - 1) div 2 = parent pos" by (simp add: parent_def)
    show ?thesis
    proof (cases "request_lt newitem (heap ! parent pos)")
      case True
      then have lt: "request_key newitem < request_key (heap ! parent pos)"
        by (simp add: request_lt_key)
      have ql: "parent pos < length heap" using parent_less[OF p0] "1.prems" by simp
      have "heap_inv (siftdown_loop (heap[pos := heap ! parent pos]) startpos (parent pos) newitem)"
        using "1.IH"[OF pos refl refl] True par ql "1.prems"
          siftdown_swap_inv[OF "1.prems"(1) p0 lt "1.prems"(3) "1.prems"(4)]
        by simp
      then show ?thesis using pos True par by (subst siftdown_loop.simps) (simp add: Let_def)
    next
      case False
      then have "request_key (heap ! parent pos) \<le> request_key newitem"
        by (simp add: not_request_lt_key)
      moreover have "parent pos < pos" using p0 by (simp add: parent_less)
      ultimately have "heap_inv (heap[pos := newitem])"
        using "1.prems" unfolding heap_inv_def heap_except_def
        by (metis length_list_update nth_list_update_eq nth_list_update_neq nat_neq_iff)
      then show ?thesis using pos False par by (subst siftdown_loop.simps) (simp add: Let_def)
    qed
  qed
qed


lemma heappush_length [simp]: "length (heappush h x) = Suc (length h)"
  by (simp add: heappush_def heapq_siftdown_def)

lemma heappush_mset: "mset (heappush h x) = add_mset x (mset h)"
  by (simp add: heappush_def heapq_siftdown_def siftdown_loop_mset)

lemma heappush_inv:
  assumes "heap_inv h"
  shows "heap_inv (heappush h x)"
proof -
  have f: "(h @ [x])[length h := x] = h @ [x]" by simp
  have ex: "heap_except (h @ [x]) (length h)"
    unfolding heap_except_def
  proof (intro allI impI)
    fix i assume i: "i < length (h @ [x])" "0 < i" "i \<noteq> length h"
    then have il: "i < length h" by simp
    then have "parent i < length h" using parent_less[OF i(2)] by simp
    then show "request_key ((h @ [x]) ! parent i) \<le> request_key ((h @ [x]) ! i)"
      using assms il i by (simp add: heap_inv_def nth_append)
  qed
  have gr: "grand_ok (h @ [x]) (length h)"
    by (auto simp: grand_ok_def parent_eq)
  show ?thesis
    using siftdown_loop_inv[of "length h" "h @ [x]" 0 x] ex gr
    by (simp add: heappush_def heapq_siftdown_def)
qed

lemma siftup_loop_props:
  "p < length h \<Longrightarrow> hole_inv h p \<Longrightarrow> siftup_loop h p = (h', p') \<Longrightarrow>
   length h' = length h \<and> p' < length h \<and> length h \<le> 2 * p' + 1 \<and> hole_inv h' p' \<and>
   mset (h'[p' := x]) = mset (h[p := x])"
proof (induction h p arbitrary: h' p' rule: siftup_loop.induct)
  case (1 heap pos)
  show ?case
  proof (cases "2 * pos + 1 < length heap")
    case False
    then have "siftup_loop heap pos = (heap, pos)"
      by (subst siftup_loop.simps) (simp add: Let_def)
    then show ?thesis using "1.prems" False by simp
  next
    case True
    define c where "c = (if 2 * pos + 1 + 1 < length heap \<and>
        \<not> request_lt (heap ! (2 * pos + 1)) (heap ! (2 * pos + 1 + 1))
        then 2 * pos + 1 + 1 else 2 * pos + 1)"
    have step: "siftup_loop heap pos = siftup_loop (heap[pos := heap ! c]) c"
      using True by (subst siftup_loop.simps) (simp add: Let_def c_def)
    have cl: "c < length heap" using True by (simp add: c_def)
    have c0: "0 < c" by (simp add: c_def)
    have pc: "parent c = pos" using parent_eq[OF c0, of pos] by (auto simp: c_def)
    have cp: "pos < c" using parent_less[OF c0] pc by simp
    have small: "\<And>i. i < length heap \<Longrightarrow> 0 < i \<Longrightarrow> parent i = pos \<Longrightarrow>
        request_key (heap ! c) \<le> request_key (heap ! i)"
    proof -
      fix i assume i: "i < length heap" "0 < i" "parent i = pos"
      then have "i = 2 * pos + 1 \<or> i = 2 * pos + 2" using parent_eq[of i pos] by simp
      then show "request_key (heap ! c) \<le> request_key (heap ! i)"
        using i by (auto simp: c_def not_request_lt_key request_lt_key)
    qed
    have old: "\<And>i. i < length heap \<Longrightarrow> 0 < i \<Longrightarrow> i \<noteq> pos \<Longrightarrow> parent i \<noteq> pos \<Longrightarrow>
        request_key (heap ! parent i) \<le> request_key (heap ! i)"
      using "1.prems"(2) by (simp add: hole_inv_def)
    have oldg: "0 < pos \<Longrightarrow> request_key (heap ! parent pos) \<le> request_key (heap ! c)"
      using "1.prems"(2) cl c0 pc by (simp add: hole_inv_def grand_ok_def)
    let ?g = "heap[pos := heap ! c]"
    have hi: "hole_inv ?g c"
      unfolding hole_inv_def grand_ok_def
    proof (intro conjI allI impI)
      fix i assume i: "i < length ?g" "0 < i" "i \<noteq> c" "parent i \<noteq> c"
      then have il: "i < length heap" by simp
      have pi: "parent i < i" using i by (simp add: parent_less)
      show "request_key (?g ! parent i) \<le> request_key (?g ! i)"
      proof (cases "i = pos")
        case True
        then show ?thesis using oldg i pi "1.prems"(1) by simp
      next
        case ip: False
        show ?thesis
        proof (cases "parent i = pos")
          case True
          then show ?thesis using small[OF il i(2)] ip "1.prems"(1) by simp
        next
          case False
          then show ?thesis using old[OF il i(2) ip] ip by simp
        qed
      qed
    next
      fix d assume d: "0 < c" "d < length ?g" "0 < d" "parent d = c"
      then have dl: "d < length heap" by simp
      have cd: "c < d" using parent_less[OF d(3)] d by simp
      have "request_key (heap ! parent d) \<le> request_key (heap ! d)"
        using old[OF dl d(3)] cd cp d by simp
      then show "request_key (?g ! parent c) \<le> request_key (?g ! d)"
        using d pc cd cp "1.prems"(1) by simp
    qed
    have IH: "length h' = length ?g \<and> p' < length ?g \<and> length ?g \<le> 2 * p' + 1 \<and>
        hole_inv h' p' \<and> mset (h'[p' := x]) = mset (?g[c := x])"
      using "1.IH"[OF refl refl True refl c_def, of h' p'] cl hi step "1.prems"(3)
      by simp
    have "mset (?g[c := x]) = mset (heap[pos := x])"
      using mset_hole_move[of pos heap c x] "1.prems"(1) cl cp by simp
    then show ?thesis using IH by simp
  qed
qed


lemma heapq_siftup_props:
  assumes "h \<noteq> []" and "hole_inv h 0"
  shows "heap_inv (heapq_siftup h 0)" and "mset (heapq_siftup h 0) = mset h"
proof -
  obtain h' p' where sl: "siftup_loop h 0 = (h', p')" by (cases "siftup_loop h 0")
  have l0: "0 < length h" using assms by simp
  have props: "length h' = length h \<and> p' < length h \<and> length h \<le> 2 * p' + 1 \<and> hole_inv h' p' \<and>
      mset (h'[p' := h ! 0]) = mset (h[0 := h ! 0])"
    using siftup_loop_props[OF l0 assms(2) sl] .
  let ?f = "h'[p' := h ! 0]"
  have res: "heapq_siftup h 0 = siftdown_loop ?f 0 p' (h ! 0)"
    using sl props by (simp add: heapq_siftup_def heapq_siftdown_def Let_def)
  have ff: "?f[p' := h ! 0] = ?f" by simp
  have ex: "heap_except ?f p'"
    unfolding heap_except_def
  proof (intro allI impI)
    fix i assume i: "i < length ?f" "0 < i" "i \<noteq> p'"
    have pi: "parent i < i" using i by (simp add: parent_less)
    have "parent i \<noteq> p'"
    proof
      assume "parent i = p'"
      then have "i = 2 * p' + 1 \<or> i = 2 * p' + 2" using parent_eq[OF i(2)] by simp
      then show False using i props by auto
    qed
    then show "request_key (?f ! parent i) \<le> request_key (?f ! i)"
      using props i by (simp add: hole_inv_def)
  qed
  have gr: "grand_ok ?f p'"
    using props by (auto simp: grand_ok_def parent_eq)
  show "heap_inv (heapq_siftup h 0)"
    using siftdown_loop_inv[of p' ?f 0 "h ! 0"] ex gr props by (simp add: res)
  show "mset (heapq_siftup h 0) = mset h"
    using siftdown_loop_mset[of p' ?f 0 "h ! 0"] props by (simp add: res)
qed

lemma heap_root_min:
  "heap_inv h \<Longrightarrow> i < length h \<Longrightarrow> request_key (h ! 0) \<le> request_key (h ! i)"
proof (induction i rule: less_induct)
  case (less i)
  show ?case
  proof (cases "i = 0")
    case True
    then show ?thesis by simp
  next
    case False
    then have pi: "parent i < i" by (simp add: parent_less)
    have "request_key (h ! 0) \<le> request_key (h ! parent i)"
      using less.IH[OF pi] less.prems pi by simp
    moreover have "request_key (h ! parent i) \<le> request_key (h ! i)"
      using less.prems False by (simp add: heap_inv_def)
    ultimately show ?thesis by simp
  qed
qed

lemma heappop_props:
  assumes "heap_inv h" and "h \<noteq> []"
  obtains x h' where "heappop h = Some (x, h')" and "heap_inv h'"
    and "mset h = add_mset x (mset h')"
    and "\<forall>y \<in> set h. request_key x \<le> request_key y"
proof -
  let ?h1 = "butlast h"
  have hl: "h = ?h1 @ [last h]" using assms by simp
  have root: "\<forall>y \<in> set h. request_key (h ! 0) \<le> request_key y"
    using heap_root_min[OF assms(1)] by (auto simp: in_set_conv_nth)
  show ?thesis
  proof (cases "?h1 = []")
    case True
    then have h: "h = [last h]" using hl by simp
    have "heappop h = Some (last h, [])" using assms True by (simp add: heappop_def)
    moreover have "heap_inv []" by (simp add: heap_inv_def)
    moreover have "mset h = add_mset (last h) (mset [])" by (subst h) simp
    moreover have "\<forall>y \<in> set h. request_key (last h) \<le> request_key y" by (subst h) simp
    ultimately show ?thesis using that by blast
  next
    case False
    let ?g = "?h1[0 := last h]"
    have pop: "heappop h = Some (?h1 ! 0, heapq_siftup ?g 0)"
      using assms False by (simp add: heappop_def Let_def)
    have g: "?g \<noteq> []" using False by simp
    have hi: "hole_inv ?g 0"
      unfolding hole_inv_def grand_ok_def
    proof (intro conjI allI impI)
      fix i assume i: "i < length ?g" "0 < i" "i \<noteq> 0" "parent i \<noteq> 0"
      then have il: "i < length h" by simp
      have pi: "parent i < i" using i by (simp add: parent_less)
      have "request_key (h ! parent i) \<le> request_key (h ! i)"
        using assms(1) il i by (simp add: heap_inv_def)
      then show "request_key (?g ! parent i) \<le> request_key (?g ! i)"
        using i pi by (simp add: nth_butlast)
    qed simp
    have l1: "0 < length ?h1" using False by blast
    then have r0: "?h1 ! 0 = h ! 0" by (rule nth_butlast)
    have m1: "mset (heapq_siftup ?g 0) = mset ?g" using heapq_siftup_props(2)[OF g hi] .
    have m2: "mset ?g = add_mset (last h) (mset ?h1 - {#?h1 ! 0#})"
      using l1 by (rule mset_update)
    have "?h1 ! 0 \<in># mset ?h1" using l1 by (metis nth_mem_mset)
    then have "add_mset (?h1 ! 0) (mset ?g) = add_mset (last h) (mset ?h1)"
      using m2 by simp
    moreover have "mset h = add_mset (last h) (mset ?h1)" by (subst hl) simp
    ultimately have m: "mset h = add_mset (?h1 ! 0) (mset (heapq_siftup ?g 0))"
      using m1 by simp
    show ?thesis
      using that[OF pop heapq_siftup_props(1)[OF g hi] m] root r0 by simp
  qed
qed

lemma get_n_props:
  "heap_inv q \<Longrightarrow> n = length q \<Longrightarrow>
   mset (get_n n q) = mset q \<and> sorted (map request_key (get_n n q))"
proof (induction n arbitrary: q)
  case 0
  then show ?case by simp
next
  case (Suc n)
  then have ne: "q \<noteq> []" by auto
  obtain x q' where pop: "heappop q = Some (x, q')" and inv: "heap_inv q'"
    and m: "mset q = add_mset x (mset q')"
    and mn: "\<forall>y \<in> set q. request_key x \<le> request_key y"
    using heappop_props[OF Suc.prems(1) ne] by blast
  have "size (mset q) = Suc (size (mset q'))" using m by simp
  then have len: "n = length q'" using Suc.prems(2) by simp
  have IH: "mset (get_n n q') = mset q' \<and> sorted (map request_key (get_n n q'))"
    using Suc.IH[OF inv len] .
  have "set (get_n n q') \<subseteq> set q"
    using IH m by (metis mset_eq_setD set_mset_add_mset_insert set_mset_mset subset_insertI)
  then have "\<forall>y \<in> set (get_n n q'). request_key x \<le> request_key y" using mn by blast
  then show ?case using IH m pop by (simp add: get_nowait_def)
qed

lemma put_all_props:
  "heap_inv q \<Longrightarrow> length q + length rs \<le> maxsize \<Longrightarrow>
   heap_inv (put_all q rs) \<and> mset (put_all q rs) = mset q + mset rs"
proof (induction rs arbitrary: q)
  case Nil
  then show ?case by simp
next
  case (Cons r rs)
  then have put: "put_nowait q r = Some (heappush q r)" by (simp add: put_nowait_def)
  have "heap_inv (put_all (heappush q r) rs) \<and>
        mset (put_all (heappush q r) rs) = mset (heappush q r) + mset rs"
    using Cons.IH[of "heappush q r"] Cons.prems heappush_inv by simp
  then show ?case using put by (simp add: heappush_mset)
qed

lemma dequeue_order_props:
  assumes "length rs \<le> maxsize"
  shows "mset (dequeue_order rs) = mset rs" and "sorted (map request_key (dequeue_order rs))"
proof -
  have e: "heap_inv []" by (simp add: heap_inv_def)
  have p: "heap_inv (put_all [] rs) \<and> mset (put_all [] rs) = mset rs"
    using put_all_props[OF e, of rs] assms by simp
  have g: "mset (get_n (length (put_all [] rs)) (put_all [] rs)) = mset (put_all [] rs) \<and>
      sorted (map request_key (get_n (length (put_all [] rs)) (put_all [] rs)))"
    using get_n_props[of "put_all [] rs"] p by simp
  show "mset (dequeue_order rs) = mset rs" using g p by (simp add: dequeue_order_def Let_def)
  show "sorted (map request_key (dequeue_order rs))" using g by (simp add: dequeue_order_def Let_def)
qed

lemma length_dequeue_order:
  "length rs \<le> maxsize \<Longrightarrow> length (dequeue_order rs) = length rs"
  using dequeue_order_props(1)[of rs] by (metis size_mset)

lemma dequeue_order_strict:
  assumes "length rs \<le> maxsize" and "distinct (map request_key rs)"
  shows "sorted_wrt request_lt (dequeue_order rs)"
proof -
  have "mset (map request_key (dequeue_order rs)) = mset (map request_key rs)"
    using dequeue_order_props(1)[OF assms(1)] by (metis mset_map)
  then have "distinct (map request_key (dequeue_order rs))"
    using assms(2) by (metis mset_eq_imp_distinct_iff)
  then have "sorted_wrt (<) (map request_key (dequeue_order rs))"
    using dequeue_order_props(2)[OF assms(1)] by (simp add: strict_sorted_iff)
  moreover have "request_lt = (\<lambda>x y. request_key x < request_key y)"
    by (intro ext) (simp add: request_lt_key)
  ultimately show ?thesis by (simp add: sorted_wrt_map)
qed

lemma request_lt_asym: "request_lt a b \<Longrightarrow> \<not> request_lt b a"
  by (simp add: request_lt_key)

lemma priority_example_order:
  assumes "t1 < t3"
  shows "dequeue_order
       [TransferRequest_init 1 s d 5 None None t1, TransferRequest_init 2 s d 1 None None t2,
        TransferRequest_init 3 s d 5 None None t3, TransferRequest_init 4 s d 3 None None t4]
     = [TransferRequest_init 2 s d 1 None None t2, TransferRequest_init 4 s d 3 None None t4,
        TransferRequest_init 1 s d 5 None None t1, TransferRequest_init 3 s d 5 None None t3]"
  using assms
  by (simp add: dequeue_order_def put_nowait_def maxsize_def heappush_def heapq_siftdown_def
      get_nowait_def heappop_def heapq_siftup_def siftdown_loop.simps siftup_loop.simps
      request_lt_def TransferRequest_init_def Let_def eval_nat_numeral)

text \<open>
  Claim C3, as the code has it.  For up to 200 submitted requests of which no two share both
  priority and timestamp, every request is dequeued, and the request at position \<open>i\<close> of
  the dequeue order precedes the one at position \<open>j\<close> exactly when its priority number is
  lower, or the priorities are equal and its \<open>time.time()\<close> stamp is smaller.  Requests of
  priorities 5, 1, 5, 3 submitted in that order leave as 1, 3, first 5, second 5 whenever
  the first 5 carries the smaller stamp.
\<close>

theorem C3_dequeue_by_priority_then_timestamp:
  assumes "length rs \<le> maxsize" and "distinct (map request_key rs)"
    and "i < length rs" and "j < length rs" and "i \<noteq> j"
    and "t1 < t3"
  shows "mset (dequeue_order rs) = mset rs \<and>
         (i < j \<longleftrightarrow>
            priority (dequeue_order rs ! i) < priority (dequeue_order rs ! j) \<or>
            priority (dequeue_order rs ! i) = priority (dequeue_order rs ! j) \<and>
            timestamp (dequeue_order rs ! i) < timestamp (dequeue_order rs ! j)) \<and>
         dequeue_order
           [TransferRequest_init 1 s d 5 None None t1, TransferRequest_init 2 s d 1 None None t2,
            TransferRequest_init 3 s d 5 None None t3, TransferRequest_init 4 s d 3 None None t4]
         = [TransferRequest_init 2 s d 1 None None t2, TransferRequest_init 4 s d 3 None None t4,
            TransferRequest_init 1 s d 5 None None t1, TransferRequest_init 3 s d 5 None None t3]"
proof -
  let ?out = "dequeue_order rs"
  have len: "length ?out = length rs" using assms(1) by (rule length_dequeue_order)
  have srt: "sorted_wrt request_lt ?out" using assms(1,2) by (rule dequeue_order_strict)
  have lt: "request_lt a b \<longleftrightarrow>
      priority a < priority b \<or> priority a = priority b \<and> timestamp a < timestamp b" for a b
    by (auto simp: request_lt_def)
  have fwd: "i < j \<Longrightarrow> request_lt (?out ! i) (?out ! j)"
    using srt assms(4) len by (simp add: sorted_wrt_iff_nth_less)
  have bwd: "j < i \<Longrightarrow> request_lt (?out ! j) (?out ! i)"
    using srt assms(3) len by (simp add: sorted_wrt_iff_nth_less)
  have "i < j \<longleftrightarrow> request_lt (?out ! i) (?out ! j)"
    using fwd bwd assms(5) request_lt_asym by (metis nat_neq_iff)
  then show ?thesis
    using dequeue_order_props(1)[OF assms(1)] lt priority_example_order[OF assms(6)] by simp
qed

text \<open>
  Four requests stamped 10, 11, 12, 13 with priorities 5, 1, 5, 3: layers 2, 4, 1, 3 leave
  in that order, and the two requests of priority 5 leave in the order of their stamps.
\<close>

theorem C3_witness:
  "map layer_id (dequeue_order band_requests) = [2, 4, 1, 3] \<and>
   map priority (dequeue_order band_requests) = [1, 3, 5, 5] \<and>
   mset (dequeue_order band_requests) = mset band_requests \<and>
   priority (dequeue_order band_requests ! 2) = priority (dequeue_order band_requests ! 3) \<and>
   timestamp (dequeue_order band_requests ! 2) < timestamp (dequeue_order band_requests ! 3)"
proof -
  have a: "length band_requests \<le> maxsize" by (simp add: band_requests_def maxsize_def)
  have b: "distinct (map request_key band_requests)"
    by (simp add: band_requests_def request_key_def TransferRequest_init_def)
  have c: "(2::nat) < length band_requests" "(3::nat) < length band_requests" "(2::nat) \<noteq> 3"
    by (simp_all add: band_requests_def)
  have t: "(10::real) < 12" by simp
  have o: "map layer_id (dequeue_order band_requests) = [2, 4, 1, 3]"
    unfolding band_requests_def by code_simp
  have p: "map priority (dequeue_order band_requests) = [1, 3, 5, 5]"
    unfolding band_requests_def by code_simp
  have "priority (dequeue_order band_requests ! 2) = priority (dequeue_order band_requests ! 3)"
    using arg_cong[OF p, of "\<lambda>xs. xs ! 2"] arg_cong[OF p, of "\<lambda>xs. xs ! 3"] a
    by (simp add: length_dequeue_order band_requests_def)
  then show ?thesis
    using C3_dequeue_by_priority_then_timestamp[OF a b c t] o p by simp
qed

text \<open>
  Four requests of priority 5 that all read the same clock value leave as 1, 3, 2, 4: the
  third submitted overtakes the second.  And a request stamped after the clock stepped back
  (9 after 10) overtakes the one submitted before it.
\<close>

theorem C3_counterexample:
  "map (\<lambda>r. (layer_id r, priority r, timestamp r)) (dequeue_order tied_requests)
     = [(1, 5, 10), (3, 5, 10), (2, 5, 10), (4, 5, 10)] \<and>
   map (\<lambda>r. (layer_id r, priority r, timestamp r))
     (dequeue_order [TransferRequest_init 1 ''gpu'' ''cpu'' 5 None None 10,
                     TransferRequest_init 2 ''gpu'' ''cpu'' 5 None None 9])
     = [(2, 5, 9), (1, 5, 10)]"
  unfolding tied_requests_def by code_simp

section \<open>Binary64 arithmetic and the accelerator budget\<close>

lemma round_half_even_err: "\<bar>of_int (round_half_even y) - y\<bar> \<le> 1 / 2"
proof -
  have "of_int \<lfloor>y\<rfloor> \<le> y" "y < of_int \<lfloor>y\<rfloor> + 1" by linarith+
  then show ?thesis
    by (auto simp: round_half_even_def Let_def abs_le_iff)
qed

lemma round_half_even_of_int [simp]: "round_half_even (of_int m) = m"
  by (simp add: round_half_even_def)

lemma round_half_even_le:
  assumes "y \<le> of_int M"
  shows "round_half_even y \<le> M"
proof -
  have "of_int (round_half_even y) \<le> y + 1 / 2" using round_half_even_err[of y] by linarith
  then have "(of_int (round_half_even y) :: rat) < of_int M + 1" using assms by linarith
  then have "(of_int (round_half_even y) :: rat) < of_int (M + 1)" by simp
  then have "round_half_even y < M + 1" by (simp only: of_int_less_iff)
  then show ?thesis by simp
qed

lemma round_half_even_nonneg:
  assumes "0 \<le> y"
  shows "0 \<le> round_half_even y"
proof -
  have "(- 1 :: rat) < of_int (round_half_even y)" using round_half_even_err[of y] assms by linarith
  then have "(of_int (- 1) :: rat) < of_int (round_half_even y)" by simp
  then have "- 1 < round_half_even y" by (simp only: of_int_less_iff)
  then show ?thesis by simp
qed

lemma powi_rat_of_nat: "0 \<le> k \<Longrightarrow> (2::rat) powi k = of_int (2 ^ nat k)"
  by (simp add: power_int_def)

lemma binary64_exponent_bounds:
  assumes "0 < x"
  shows "2 powi (binary64_exponent x) \<le> x" and "x < 2 powi (binary64_exponent x + 1)"
proof -
  obtain n d where q: "quotient_of x = (n, d)" by (cases "quotient_of x")
  have d: "0 < d" using quotient_of_denom_pos[OF q] .
  have x: "x = of_int n / of_int d" using quotient_of_div[OF q] .
  have n: "0 < n" using assms d x by (simp add: zero_less_divide_iff)
  define bn where "bn = bitlen n"
  define bd where "bd = bitlen d"
  have bn1: "1 \<le> bn" using n bitlen_eq_zero_iff[of n] bitlen_nonneg[of n] by (simp add: bn_def)
  have bd1: "1 \<le> bd" using d bitlen_eq_zero_iff[of d] bitlen_nonneg[of d] by (simp add: bd_def)
  have nb: "2 ^ nat (bn - 1) \<le> n" "n < 2 ^ nat bn" using bitlen_bounds[OF n] by (simp_all add: bn_def)
  have db: "2 ^ nat (bd - 1) \<le> d" "d < 2 ^ nat bd" using bitlen_bounds[OF d] by (simp_all add: bd_def)
  have nr: "(2::rat) powi (bn - 1) \<le> of_int n" "(of_int n :: rat) < 2 powi bn"
  proof -
    have "(2::rat) powi (bn - 1) = of_int (2 ^ nat (bn - 1))"
      using bn1 by (intro powi_rat_of_nat) simp
    then show "(2::rat) powi (bn - 1) \<le> of_int n" using nb(1) by (simp only: of_int_le_iff)
    have "(2::rat) powi bn = of_int (2 ^ nat bn)"
      using bn1 by (intro powi_rat_of_nat) simp
    then show "(of_int n :: rat) < 2 powi bn" using nb(2) by (simp only: of_int_less_iff)
  qed
  have dr: "(2::rat) powi (bd - 1) \<le> of_int d" "(of_int d :: rat) < 2 powi bd"
  proof -
    have "(2::rat) powi (bd - 1) = of_int (2 ^ nat (bd - 1))"
      using bd1 by (intro powi_rat_of_nat) simp
    then show "(2::rat) powi (bd - 1) \<le> of_int d" using db(1) by (simp only: of_int_le_iff)
    have "(2::rat) powi bd = of_int (2 ^ nat bd)"
      using bd1 by (intro powi_rat_of_nat) simp
    then show "(of_int d :: rat) < 2 powi bd" using db(2) by (simp only: of_int_less_iff)
  qed
  have dpos: "(0::rat) < of_int d" using d by simp
  have lo: "(2::rat) powi (bn - bd - 1) \<le> x"
  proof -
    have "(2::rat) powi (bn - bd - 1) * of_int d \<le> 2 powi (bn - bd - 1) * 2 powi bd"
      using dr(2) by (intro mult_left_mono) simp_all
    also have "\<dots> = 2 powi (bn - 1)" by (simp flip: power_int_add)
    also have "\<dots> \<le> of_int n" using nr(1) .
    finally show ?thesis using dpos by (simp add: x pos_le_divide_eq)
  qed
  have hi: "x < (2::rat) powi (bn - bd + 1)"
  proof -
    have "(of_int n :: rat) < 2 powi bn" using nr(2) .
    also have "\<dots> = 2 powi (bn - bd + 1) * 2 powi (bd - 1)" by (simp flip: power_int_add)
    also have "\<dots> \<le> 2 powi (bn - bd + 1) * of_int d"
      using dr(1) by (intro mult_left_mono) simp_all
    finally show ?thesis using dpos by (simp add: x pos_divide_less_eq)
  qed
  have e: "binary64_exponent x = (if 2 powi (bn - bd) \<le> x then bn - bd else bn - bd - 1)"
    by (simp add: binary64_exponent_def q bn_def bd_def)
  show "2 powi (binary64_exponent x) \<le> x" using lo by (simp add: e)
  show "x < 2 powi (binary64_exponent x + 1)" using hi by (auto simp: e not_le)
qed

lemma binary64_exponent_unique:
  assumes "2 powi e \<le> x" and "x < 2 powi (e + 1)"
  shows "binary64_exponent x = e"
proof -
  have x: "0 < x" using assms(1) by (meson less_le_trans zero_less_numeral zero_less_power_int)
  let ?f = "binary64_exponent x"
  have b: "2 powi ?f \<le> x" "x < 2 powi (?f + 1)" using binary64_exponent_bounds[OF x] .
  have "\<not> ?f < e"
  proof
    assume "?f < e"
    then have "(2::rat) powi (?f + 1) \<le> 2 powi e" by (intro power_int_increasing) simp_all
    then show False using b(2) assms(1) by linarith
  qed
  moreover have "\<not> e < ?f"
  proof
    assume "e < ?f"
    then have "(2::rat) powi (e + 1) \<le> 2 powi ?f" by (intro power_int_increasing) simp_all
    then show False using b(1) assms(2) by linarith
  qed
  ultimately show ?thesis by simp
qed


lemma powi2_add: "(2::rat) powi (a + b) = 2 powi a * 2 powi b"
  by (simp add: power_int_add)

lemma powi2_split: "(2::rat) powi a = 2 powi (a - b) * 2 powi b"
  using powi2_add[of "a - b" b] by simp

lemma round_binary64_normal:
  assumes "2 powi e \<le> \<bar>x\<bar>" and "\<bar>x\<bar> < 2 powi (e + 1)" and "- 1022 \<le> e" and "e \<le> 1022"
  shows "round_binary64 x =
           Some (sgn x * (of_int (round_half_even (\<bar>x\<bar> / 2 powi (e - 52))) * 2 powi (e - 52)))"
    and "\<bar>of_int (round_half_even (\<bar>x\<bar> / 2 powi (e - 52))) * 2 powi (e - 52) - \<bar>x\<bar>\<bar>
           \<le> 2 powi (e - 53)"
    and "of_int (round_half_even (\<bar>x\<bar> / 2 powi (e - 52))) * (2::rat) powi (e - 52) \<le> 2 powi (e + 1)"
    and "0 \<le> of_int (round_half_even (\<bar>x\<bar> / 2 powi (e - 52))) * (2::rat) powi (e - 52)"
proof -
  let ?ulp = "(2::rat) powi (e - 52)"
  let ?y = "\<bar>x\<bar> / ?ulp"
  let ?m = "round_half_even ?y"
  let ?v = "of_int ?m * ?ulp"
  have up: "0 < ?ulp" by simp
  have ax: "0 < \<bar>x\<bar>" using assms(1) by (meson less_le_trans zero_less_numeral zero_less_power_int)
  then have x0: "x \<noteq> 0" by simp
  have ex: "binary64_exponent \<bar>x\<bar> = e" using assms(1,2) by (rule binary64_exponent_unique)
  have half: "?ulp / 2 = 2 powi (e - 53)"
  proof -
    have "(2::rat) powi (e - 52) = 2 powi (e - 53) * 2 powi 1"
      using powi2_split[of "e - 52" 1] by simp
    then show ?thesis by simp
  qed
  have "\<bar>of_int ?m - ?y\<bar> * ?ulp \<le> (1 / 2) * ?ulp"
    using round_half_even_err[of ?y] up by (intro mult_right_mono) simp_all
  moreover have "\<bar>of_int ?m - ?y\<bar> * ?ulp = \<bar>?v - \<bar>x\<bar>\<bar>"
  proof -
    have "\<bar>of_int ?m - ?y\<bar> * ?ulp = \<bar>(of_int ?m - ?y) * ?ulp\<bar>" using up by (simp add: abs_mult)
    also have "(of_int ?m - ?y) * ?ulp = ?v - \<bar>x\<bar>" using up by (simp add: algebra_simps)
    finally show ?thesis .
  qed
  ultimately show err: "\<bar>?v - \<bar>x\<bar>\<bar> \<le> 2 powi (e - 53)" using half by simp
  have "?y \<le> 2 powi 53"
  proof -
    have "(2::rat) powi (e + 1) = 2 powi 53 * ?ulp"
      using powi2_split[of "e + 1" "e - 52"] by simp
    then have "\<bar>x\<bar> \<le> 2 powi 53 * ?ulp" using assms(2) by simp
    then show ?thesis using up by (simp add: pos_divide_le_eq)
  qed
  then have "?y \<le> of_int (2 ^ 53)" by simp
  then have "?m \<le> 2 ^ 53" by (rule round_half_even_le)
  then have "(of_int ?m :: rat) \<le> of_int (2 ^ 53)" by (simp only: of_int_le_iff)
  then have "of_int ?m * ?ulp \<le> of_int (2 ^ 53) * ?ulp" using up by (intro mult_right_mono) simp_all
  also have "of_int (2 ^ 53) * ?ulp = 2 powi (e + 1)"
  proof -
    have "(2::rat) powi (e + 1) = 2 powi 53 * ?ulp"
      using powi2_split[of "e + 1" "e - 52"] by simp
    then show ?thesis by simp
  qed
  finally show top: "?v \<le> 2 powi (e + 1)" .
  have "0 \<le> ?y" using up by simp
  then have "0 \<le> ?m" by (rule round_half_even_nonneg)
  then show "0 \<le> of_int ?m * ?ulp" using up by simp
  have "(2::rat) powi (e + 1) < 2 powi 1024" using assms(4) by (intro power_int_strict_increasing) simp_all
  then have nov: "\<not> 2 powi 1024 \<le> ?v" using top by linarith
  have mx: "max e (- 1022) = e" using assms(3) by (simp only: max_def) simp
  have "round_binary64 x = (if 2 powi 1024 \<le> ?v then None else Some (sgn x * ?v))"
    by (simp only: round_binary64_def Let_def x0 ex mx if_False)
  then show "round_binary64 x = Some (sgn x * ?v)"
    by (simp only: nov if_False)
qed


lemma round_binary64_minus: "round_binary64 (- x) = map_option uminus (round_binary64 x)"
  by (simp add: round_binary64_def Let_def)

lemma round_binary64_nat_exact:
  assumes "0 < m" and "m < 2 ^ 53"
  shows "round_binary64 (of_int m) = Some (of_int m)"
proof -
  let ?x = "of_int m :: rat"
  have x: "0 < ?x" using assms(1) by simp
  have ax: "\<bar>?x\<bar> = ?x" using x by simp
  define e where "e = binary64_exponent ?x"
  have b: "2 powi e \<le> ?x" "?x < 2 powi (e + 1)"
    using binary64_exponent_bounds[OF x] by (simp_all add: e_def)
  have e0: "0 \<le> e"
  proof (rule ccontr)
    assume "\<not> 0 \<le> e"
    then have "(2::rat) powi (e + 1) \<le> 2 powi 0" by (intro power_int_increasing) simp_all
    moreover have "(1::rat) \<le> ?x" using assms(1) by simp
    ultimately show False using b(2) by simp
  qed
  have e52: "e \<le> 52"
  proof (rule ccontr)
    assume "\<not> e \<le> 52"
    then have "(2::rat) powi 53 \<le> 2 powi e" by (intro power_int_increasing) simp_all
    moreover have "?x < of_int (2 ^ 53)" using assms(2) by (simp only: of_int_less_iff)
    ultimately show False using b(1) by simp
  qed
  have inv: "(2::rat) powi (e - 52) * 2 powi (52 - e) = 1"
    using powi2_add[of "e - 52" "52 - e"] by simp
  have k: "(2::rat) powi (52 - e) = of_int (2 ^ nat (52 - e))"
    using e52 by (intro powi_rat_of_nat) simp
  have "?x / 2 powi (e - 52) = ?x * 2 powi (52 - e)"
    using inv by (simp add: field_simps)
  also have "\<dots> = of_int (m * 2 ^ nat (52 - e))" by (simp only: k of_int_mult)
  finally have y: "\<bar>?x\<bar> / 2 powi (e - 52) = of_int (m * 2 ^ nat (52 - e))" using ax by simp
  have "round_binary64 ?x =
      Some (sgn ?x * (of_int (round_half_even (\<bar>?x\<bar> / 2 powi (e - 52))) * 2 powi (e - 52)))"
    using b e0 e52 ax by (intro round_binary64_normal(1)) simp_all
  also have "of_int (round_half_even (\<bar>?x\<bar> / 2 powi (e - 52))) * (2::rat) powi (e - 52) = ?x"
  proof -
    have "round_half_even (\<bar>?x\<bar> / 2 powi (e - 52)) = m * 2 ^ nat (52 - e)"
      by (simp only: y round_half_even_of_int)
    then have "of_int (round_half_even (\<bar>?x\<bar> / 2 powi (e - 52))) = ?x * (2::rat) powi (52 - e)"
      by (simp only: k of_int_mult)
    then show ?thesis using inv by (simp add: mult.assoc mult.commute)
  qed
  finally show ?thesis using x by simp
qed

lemma round_binary64_int_exact:
  assumes "\<bar>m\<bar> < 2 ^ 53"
  shows "round_binary64 (of_int m) = Some (of_int m)"
proof (cases "m = 0")
  case True
  then show ?thesis by (simp add: round_binary64_def)
next
  case False
  show ?thesis
  proof (cases "0 < m")
    case True
    then show ?thesis using assms by (intro round_binary64_nat_exact) simp_all
  next
    case neg: False
    then have "round_binary64 (of_int (- m)) = Some (of_int (- m))"
      using assms False by (intro round_binary64_nat_exact) simp_all
    then have "round_binary64 (- of_int m) = Some (- of_int m)" by simp
    then show ?thesis by (simp only: round_binary64_minus) auto
  qed
qed

lemma floor_rat_numeral [simp]:
  "\<lfloor>(numeral a :: rat) / numeral b\<rfloor> = numeral a div numeral b"
  using floor_divide_of_int_eq[of "numeral a" "numeral b", where ?'a = rat] by simp

lemma binary64_quotient_29: "round_binary64 (29 / 100) = Some (5224175567749775 / 18014398509481984)"
proof -
  have "round_binary64 (29 / 100) =
     Some (sgn (29 / 100) * (of_int (round_half_even (\<bar>29 / 100\<bar> / 2 powi (- 2 - 52))) * 2 powi (- 2 - 52)))"
    by (rule round_binary64_normal(1)) simp_all
  then show ?thesis by (simp add: round_half_even_def Let_def)
qed


lemma usable_vram_for_gpu_eval:
  assumes "\<bar>max_util_pct\<bar> < 2 ^ 53"
    and "\<bar>total_memory - reserved_vram_mb * 1024 * 1024\<bar> < 2 ^ 53"
    and "round_binary64 (of_int max_util_pct / 100) = Some q"
    and "round_binary64 (of_int (total_memory - reserved_vram_mb * 1024 * 1024) * q) = Some p"
  shows "usable_vram_for_gpu total_memory reserved_vram_mb max_util_pct = Some (max 0 (py_int p))"
  using round_binary64_int_exact[OF assms(1)] round_binary64_int_exact[OF assms(2)] assms(3,4)
  by (simp add: usable_vram_for_gpu_def)

lemma usable_100_29: "usable_vram_for_gpu 100 0 29 = Some 28"
proof -
  have p: "round_binary64 (of_int (100 - 0 * 1024 * 1024) * (5224175567749775 / 18014398509481984))
      = Some (8162774324609023 / 281474976710656)"
  proof -
    let ?x = "of_int (100 - 0 * 1024 * 1024) * (5224175567749775 / 18014398509481984) :: rat"
    have "round_binary64 ?x =
       Some (sgn ?x * (of_int (round_half_even (\<bar>?x\<bar> / 2 powi (4 - 52))) * 2 powi (4 - 52)))"
      by (rule round_binary64_normal(1)) simp_all
    then show ?thesis by (simp add: round_half_even_def Let_def)
  qed
  have q: "round_binary64 (of_int 29 / 100) = Some (5224175567749775 / 18014398509481984)"
    using binary64_quotient_29 by simp
  show ?thesis
    using usable_vram_for_gpu_eval[OF _ _ q p] by (simp add: py_int_def)
qed

lemma usable_25000mib_29: "usable_vram_for_gpu 26482835456 256 29 = Some 7602175999"
proof -
  have p: "round_binary64 (of_int (26482835456 - 256 * 1024 * 1024) * (5224175567749775 / 18014398509481984))
      = Some (7971459301375999 / 1048576)"
  proof -
    let ?x = "of_int (26482835456 - 256 * 1024 * 1024) * (5224175567749775 / 18014398509481984) :: rat"
    have "round_binary64 ?x =
       Some (sgn ?x * (of_int (round_half_even (\<bar>?x\<bar> / 2 powi (32 - 52))) * 2 powi (32 - 52)))"
      by (rule round_binary64_normal(1)) simp_all
    then show ?thesis by (simp add: round_half_even_def Let_def)
  qed
  have q: "round_binary64 (of_int 29 / 100) = Some (5224175567749775 / 18014398509481984)"
    using binary64_quotient_29 by simp
  show ?thesis
    using usable_vram_for_gpu_eval[OF _ _ q p] by (simp add: py_int_def)
qed


lemma round_binary64_relative:
  assumes "2 powi (- 1022) \<le> \<bar>x\<bar>" and "\<bar>x\<bar> < 2 powi 1023"
  obtains v where "round_binary64 x = Some (sgn x * v)" and "0 \<le> v"
    and "\<bar>v - \<bar>x\<bar>\<bar> \<le> \<bar>x\<bar> / 2 ^ 53"
proof -
  have ax: "0 < \<bar>x\<bar>" using assms(1) by (meson less_le_trans zero_less_numeral zero_less_power_int)
  define e where "e = binary64_exponent \<bar>x\<bar>"
  have b: "2 powi e \<le> \<bar>x\<bar>" "\<bar>x\<bar> < 2 powi (e + 1)"
    using binary64_exponent_bounds[OF ax] by (simp_all add: e_def)
  have lo: "- 1022 \<le> e"
  proof (rule ccontr)
    assume "\<not> - 1022 \<le> e"
    then have "(2::rat) powi (e + 1) \<le> 2 powi (- 1022)" by (intro power_int_increasing) simp_all
    then show False using b(2) assms(1) by linarith
  qed
  have hi: "e \<le> 1022"
  proof (rule ccontr)
    assume "\<not> e \<le> 1022"
    then have "(2::rat) powi 1023 \<le> 2 powi e" by (intro power_int_increasing) simp_all
    then show False using b(1) assms(2) by linarith
  qed
  let ?v = "of_int (round_half_even (\<bar>x\<bar> / 2 powi (e - 52))) * (2::rat) powi (e - 52)"
  have "(2::rat) powi e = 2 powi (e - 53) * 2 powi 53" using powi2_split[of e 53] .
  then have "(2::rat) powi (e - 53) = 2 powi e / 2 ^ 53" by simp
  also have "\<dots> \<le> \<bar>x\<bar> / 2 ^ 53" using b(1) by (intro divide_right_mono) simp_all
  finally have "\<bar>?v - \<bar>x\<bar>\<bar> \<le> \<bar>x\<bar> / 2 ^ 53"
    using round_binary64_normal(2)[OF b lo hi] by linarith
  then show ?thesis
    using that[of ?v] round_binary64_normal(1)[OF b lo hi] round_binary64_normal(4)[OF b lo hi]
    by blast
qed


lemma round_binary64_relative_mid:
  assumes "1 / 128 \<le> \<bar>x\<bar>" and "\<bar>x\<bar> \<le> 2 ^ 46"
  obtains v where "round_binary64 x = Some (sgn x * v)" and "0 \<le> v"
    and "\<bar>v - \<bar>x\<bar>\<bar> \<le> \<bar>x\<bar> / 2 ^ 53"
proof -
  have "(2::rat) powi (- 1022) \<le> 2 powi (- 7)" by (intro power_int_increasing) simp_all
  also have "(2::rat) powi (- 7) = 1 / 128" by simp
  finally have lo: "2 powi (- 1022) \<le> \<bar>x\<bar>" using assms(1) by linarith
  have "(2::rat) powi 46 < 2 powi 1023" by (intro power_int_strict_increasing) simp_all
  moreover have "(2::rat) powi 46 = 2 ^ 46" by simp
  ultimately have hi: "\<bar>x\<bar> < 2 powi 1023" using assms(2) by linarith
  show ?thesis using round_binary64_relative[OF lo hi] that by blast
qed

lemma usable_vram_for_gpu_accuracy:
  fixes total_memory reserved_vram_mb max_util_pct :: int
  defines "a \<equiv> total_memory - reserved_vram_mb * 1024 * 1024"
  assumes pct: "0 \<le> max_util_pct" "max_util_pct \<le> 100" and a45: "\<bar>a\<bar> \<le> 2 ^ 45"
  shows "\<exists>u. usable_vram_for_gpu total_memory reserved_vram_mb max_util_pct = Some u \<and>
             max 0 ((a * max_util_pct) div 100) - 1 \<le> u \<and>
             u \<le> max 0 ((a * max_util_pct) div 100)"
proof -
  have pct53: "\<bar>max_util_pct\<bar> < 2 ^ 53" using pct by simp
  have a53: "\<bar>total_memory - reserved_vram_mb * 1024 * 1024\<bar> < 2 ^ 53"
    using a45 by (simp add: a_def)
  let ?x = "of_int max_util_pct / 100 :: rat"
  show ?thesis
  proof (cases "max_util_pct = 0 \<or> a = 0")
    case True
    have z: "round_binary64 0 = Some 0" by (simp add: round_binary64_def)
    show ?thesis
    proof (cases "max_util_pct = 0")
      case p0: True
      have "usable_vram_for_gpu total_memory reserved_vram_mb max_util_pct = Some (max 0 (py_int 0))"
        using usable_vram_for_gpu_eval[OF pct53 a53, of 0 0] z p0 by simp
      then show ?thesis using p0 by (simp add: py_int_def)
    next
      case False
      then have a0: "a = 0" using True by simp
      have xr: "1 / 128 \<le> \<bar>?x\<bar>" "\<bar>?x\<bar> \<le> 2 ^ 46"
      proof -
        have "1 \<le> max_util_pct" using False pct by simp
        then have "(1::rat) \<le> of_int max_util_pct" by simp
        then show "1 / 128 \<le> \<bar>?x\<bar>" by simp
        have "(of_int max_util_pct :: rat) \<le> 100" using pct(2) by simp
        then show "\<bar>?x\<bar> \<le> 2 ^ 46" using pct(1) by simp
      qed
      obtain q where q: "round_binary64 ?x = Some q"
        using round_binary64_relative_mid[OF xr] by blast
      have "usable_vram_for_gpu total_memory reserved_vram_mb max_util_pct = Some (max 0 (py_int 0))"
        using usable_vram_for_gpu_eval[OF pct53 a53 q, of 0] z a0 by (simp add: a_def)
      then show ?thesis using a0 by (simp add: py_int_def)
    qed
  next
    case False
    then have p1: "1 \<le> max_util_pct" and a0: "a \<noteq> 0" using pct by simp_all
    have xpos: "0 < ?x" using p1 by simp
    have xlo: "1 / 100 \<le> ?x"
    proof -
      have "(1::rat) \<le> of_int max_util_pct" using p1 by simp
      then show ?thesis by simp
    qed
    have xhi: "?x \<le> 1"
    proof -
      have "(of_int max_util_pct :: rat) \<le> 100" using pct(2) by simp
      then show ?thesis by simp
    qed
    have xr: "1 / 128 \<le> \<bar>?x\<bar>" "\<bar>?x\<bar> \<le> 2 ^ 46" using xlo xhi by simp_all
    obtain q where q: "round_binary64 ?x = Some (sgn ?x * q)" and q0: "0 \<le> q"
      and qe: "\<bar>q - \<bar>?x\<bar>\<bar> \<le> \<bar>?x\<bar> / 2 ^ 53"
      using round_binary64_relative_mid[OF xr] by blast
    have q': "round_binary64 ?x = Some q" using q xpos by simp
    have qe': "\<bar>q - ?x\<bar> \<le> ?x / 2 ^ 53" using qe xpos by simp
    define A :: rat where "A = of_int \<bar>a\<bar>"
    have A1: "1 \<le> A"
    proof -
      have "1 \<le> \<bar>a\<bar>" using a0 by simp
      then have "(of_int 1 :: rat) \<le> of_int \<bar>a\<bar>" by (simp only: of_int_le_iff)
      then show ?thesis by (simp add: A_def)
    qed
    have A45: "A \<le> 2 ^ 45"
    proof -
      have "(of_int \<bar>a\<bar> :: rat) \<le> of_int (2 ^ 45)" using a45 by (simp only: of_int_le_iff)
      then show ?thesis by (simp add: A_def)
    qed
    define t where "t = A * ?x"
    have t0: "0 < t" using A1 xpos by (simp add: t_def)
    have t45: "t \<le> 2 ^ 45"
    proof -
      have "A * ?x \<le> 2 ^ 45 * 1" using A45 xhi xpos A1 by (intro mult_mono) simp_all
      then show ?thesis by (simp add: t_def)
    qed
    have tlo: "1 / 100 \<le> t"
    proof -
      have "1 * (1 / 100) \<le> A * ?x" using A1 xlo by (intro mult_mono) simp_all
      then show ?thesis by (simp add: t_def)
    qed
    define y where "y = A * q"
    have yq: "\<bar>y - t\<bar> \<le> t / 2 ^ 53"
    proof -
      define X where "X = ?x"
      have "y - t = A * (q - X)" by (simp only: y_def t_def X_def right_diff_distrib)
      then have "\<bar>y - t\<bar> = \<bar>A\<bar> * \<bar>q - X\<bar>" by (simp only: abs_mult)
      also have "\<bar>A\<bar> = A" using A1 by simp
      also have "A * \<bar>q - X\<bar> \<le> A * (X / 2 ^ 53)"
        using qe' A1 by (intro mult_left_mono) (simp_all add: X_def)
      also have "A * (X / 2 ^ 53) = t / 2 ^ 53" by (simp add: t_def X_def)
      finally show ?thesis .
    qed
    have t45': "t \<le> 35184372088832" using t45 by simp
    have yq': "\<bar>y - t\<bar> \<le> t / 9007199254740992" using yq by simp
    have ylo: "1 / 128 \<le> y" using yq' tlo t45' by linarith
    have yhi': "y \<le> 70368744177664" using yq' tlo t45' by linarith
    then have yhi: "y \<le> 2 ^ 46" by simp
    let ?Y = "of_int (total_memory - reserved_vram_mb * 1024 * 1024) * q :: rat"
    have Yabs: "\<bar>?Y\<bar> = y" using q0 by (simp add: y_def A_def a_def abs_mult)
    obtain w where w: "round_binary64 ?Y = Some (sgn ?Y * w)" and w0: "0 \<le> w"
      and we: "\<bar>w - \<bar>?Y\<bar>\<bar> \<le> \<bar>?Y\<bar> / 2 ^ 53"
      using round_binary64_relative_mid[of ?Y] ylo yhi Yabs by auto
    have wy: "\<bar>w - y\<bar> \<le> y / 2 ^ 53" using we Yabs by simp
    have wy': "\<bar>w - y\<bar> \<le> y / 9007199254740992" using wy by simp
    have wt: "\<bar>w - t\<bar> < 1 / 100" using wy' yq' t45' t0 by linarith
    have u: "usable_vram_for_gpu total_memory reserved_vram_mb max_util_pct
        = Some (max 0 (py_int (sgn ?Y * w)))"
      using usable_vram_for_gpu_eval[OF pct53 a53 q' w] .
    show ?thesis
    proof (cases "0 < a")
      case neg: False
      then have an: "a < 0" using a0 by simp
      then have "max_util_pct * a < 0" using p1 by (simp add: mult_pos_neg)
      then have "(a * max_util_pct) div 100 < 0" by (simp add: mult.commute div_neg_pos_less0)
      then have E: "max 0 ((a * max_util_pct) div 100) = 0" by simp
      have "?Y \<le> 0" using an q0 by (simp add: a_def mult_nonpos_nonneg)
      then have "sgn ?Y * w \<le> 0" using w0 by (simp add: sgn_if mult_nonpos_nonneg)
      then have "py_int (sgn ?Y * w) \<le> 0" by (auto simp: py_int_def ceiling_le_zero)
      then show ?thesis using u E by simp
    next
      case True
      have Apos: "A = of_int a" using True by (simp add: A_def)
      have qe'': "\<bar>q - ?x\<bar> \<le> ?x / 9007199254740992" using qe' by simp
      have qpos: "0 < q" using qe'' xlo by linarith
      have "0 < ?Y" using True qpos by (simp add: a_def)
      then have sg: "sgn ?Y * w = w" by simp
      have tE: "t = of_int (a * max_util_pct) / 100" by (simp add: t_def Apos)
      define N where "N = a * max_util_pct"
      define F where "F = N div 100"
      have N0: "0 \<le> N" using True pct by (simp add: N_def)
      have F0: "0 \<le> F" using N0 by (simp add: F_def pos_imp_zdiv_nonneg_iff)
      have Nr: "100 * F \<le> N" "N \<le> 100 * F + 99" unfolding F_def by presburger+
      have tF: "of_int F \<le> t" "t \<le> of_int F + 99 / 100"
      proof -
        have "(of_int (100 * F) :: rat) \<le> of_int N" using Nr(1) by (simp only: of_int_le_iff)
        then show "of_int F \<le> t" by (simp add: tE N_def)
        have "(of_int N :: rat) \<le> of_int (100 * F + 99)" using Nr(2) by (simp only: of_int_le_iff)
        then show "t \<le> of_int F + 99 / 100" by (simp add: tE N_def)
      qed
      have "w < of_int F + 1" using wt tF by linarith
      then have "w < of_int (F + 1)" by simp
      then have "\<lfloor>w\<rfloor> < F + 1" by (simp only: floor_less_iff)
      then have up: "\<lfloor>w\<rfloor> \<le> F" by simp
      have "of_int F - 1 \<le> w" using wt tF by linarith
      then have "of_int (F - 1) \<le> w" by simp
      then have dn: "F - 1 \<le> \<lfloor>w\<rfloor>" by (simp only: le_floor_iff)
      have w0': "0 \<le> \<lfloor>w\<rfloor>" using w0 by simp
      have "py_int w = \<lfloor>w\<rfloor>" using w0 by (simp add: py_int_def)
      then have "py_int (sgn ?Y * w) = \<lfloor>w\<rfloor>" by (simp only: sg)
      then have "max 0 (py_int (sgn ?Y * w)) = \<lfloor>w\<rfloor>" using w0' by (simp only: max_def) simp
      then show ?thesis using u up dn F0 by (simp add: F_def N_def)
    qed
  qed
qed

lemma detect_gpu_devices_props:
  assumes "\<forall>j<length props. \<exists>u.
      usable_vram_for_gpu (props ! j) (reserved_vram_mb_of cfg (i + j)) (max_util_pct_of cfg (i + j)) = Some u"
  shows "\<exists>new. detect_gpu_devices cfg i props devices tot
           = Some (devices @ new, tot + sum_list (map usable_memory_bytes_planning new)) \<and>
         length new = length props \<and>
         (\<forall>j<length props. device_id (new ! j) = i + j \<and> total_memory_bytes (new ! j) = props ! j \<and>
            usable_vram_for_gpu (props ! j) (reserved_vram_mb_of cfg (i + j)) (max_util_pct_of cfg (i + j))
              = Some (usable_memory_bytes_planning (new ! j)))"
  using assms
proof (induction props arbitrary: i devices tot)
  case Nil
  then show ?case by simp
next
  case (Cons tm props)
  obtain u where u: "usable_vram_for_gpu tm (reserved_vram_mb_of cfg i) (max_util_pct_of cfg i) = Some u"
    using Cons.prems by fastforce
  let ?d = "\<lparr> device_id = i, total_memory_bytes = tm, usable_memory_bytes_planning = u \<rparr>"
  have rest: "\<forall>j<length props. \<exists>u.
      usable_vram_for_gpu (props ! j) (reserved_vram_mb_of cfg (Suc i + j)) (max_util_pct_of cfg (Suc i + j)) = Some u"
  proof (intro allI impI)
    fix j assume "j < length props"
    then have "Suc j < length (tm # props)" by simp
    then show "\<exists>u. usable_vram_for_gpu (props ! j) (reserved_vram_mb_of cfg (Suc i + j))
        (max_util_pct_of cfg (Suc i + j)) = Some u"
      using Cons.prems[rule_format, of "Suc j"] by simp
  qed
  obtain new where n: "detect_gpu_devices cfg (Suc i) props (devices @ [?d]) (tot + u)
           = Some ((devices @ [?d]) @ new, (tot + u) + sum_list (map usable_memory_bytes_planning new))"
      and l: "length new = length props"
      and p: "\<forall>j<length props. device_id (new ! j) = Suc i + j \<and> total_memory_bytes (new ! j) = props ! j \<and>
            usable_vram_for_gpu (props ! j) (reserved_vram_mb_of cfg (Suc i + j)) (max_util_pct_of cfg (Suc i + j))
              = Some (usable_memory_bytes_planning (new ! j))"
    using Cons.IH[OF rest, of "devices @ [?d]" "tot + u"] by blast
  have "detect_gpu_devices cfg i (tm # props) devices tot
      = Some (devices @ (?d # new), tot + sum_list (map usable_memory_bytes_planning (?d # new)))"
    using u n by simp
  moreover have "length (?d # new) = length (tm # props)" using l by simp
  moreover have "\<forall>j<length (tm # props). device_id ((?d # new) ! j) = i + j \<and>
      total_memory_bytes ((?d # new) ! j) = (tm # props) ! j \<and>
      usable_vram_for_gpu ((tm # props) ! j) (reserved_vram_mb_of cfg (i + j)) (max_util_pct_of cfg (i + j))
        = Some (usable_memory_bytes_planning ((?d # new) ! j))"
  proof (intro allI impI)
    fix j assume j: "j < length (tm # props)"
    show "device_id ((?d # new) ! j) = i + j \<and>
      total_memory_bytes ((?d # new) ! j) = (tm # props) ! j \<and>
      usable_vram_for_gpu ((tm # props) ! j) (reserved_vram_mb_of cfg (i + j)) (max_util_pct_of cfg (i + j))
        = Some (usable_memory_bytes_planning ((?d # new) ! j))"
    proof (cases j)
      case 0
      then show ?thesis using u by simp
    next
      case (Suc k)
      then have "k < length props" using j by simp
      then show ?thesis using p[rule_format, of k] Suc by simp
    qed
  qed
  ultimately show ?case by blast
qed

text \<open>
  Claim C9, as the code has it.  Take devices whose utilisation percentage is between 0 and
  100 and whose byte difference \<open>total_memory - reserved_vram_mb * 2^20\<close> has magnitude at
  most \<open>2^45\<close>, the percentage and the reserve being the per-device configuration values
  or else the configured defaults or else 90 and 256.  Then detection succeeds; each
  device's usable planning memory is the binary64 computation of line 335 (the percentage
  divided by 100.0, the difference multiplied by that quotient, the product truncated
  toward zero, negative results replaced by 0); that value is the floor of the exact
  product \<open>(total_memory - reserved_vram_mb * 2^20) * percent / 100\<close> (0 when that is
  negative) or one byte less; and the recorded total is the sum of the per-device values.
\<close>

theorem C9_usable_vram_in_binary64:
  assumes "\<forall>i<length props. 0 \<le> max_util_pct_of cfg i \<and> max_util_pct_of cfg i \<le> 100 \<and>
             \<bar>props ! i - reserved_vram_mb_of cfg i * 1024 * 1024\<bar> \<le> 2 ^ 45"
  shows "\<exists>devs. detect_gpus cfg True props []
             = Some (devs, sum_list (map usable_memory_bytes_planning devs)) \<and>
           length devs = length props \<and>
           (\<forall>i<length props.
              device_id (devs ! i) = i \<and> total_memory_bytes (devs ! i) = props ! i \<and>
              usable_vram_for_gpu (props ! i) (reserved_vram_mb_of cfg i) (max_util_pct_of cfg i)
                = Some (usable_memory_bytes_planning (devs ! i)) \<and>
              max 0 (((props ! i - reserved_vram_mb_of cfg i * 1024 * 1024) * max_util_pct_of cfg i) div 100) - 1
                \<le> usable_memory_bytes_planning (devs ! i) \<and>
              usable_memory_bytes_planning (devs ! i)
                \<le> max 0 (((props ! i - reserved_vram_mb_of cfg i * 1024 * 1024) * max_util_pct_of cfg i) div 100))"
proof -
  have ex: "\<forall>j<length props. \<exists>u.
      usable_vram_for_gpu (props ! j) (reserved_vram_mb_of cfg (0 + j)) (max_util_pct_of cfg (0 + j)) = Some u"
    using assms usable_vram_for_gpu_accuracy by (metis add_0)
  obtain devs where d: "detect_gpu_devices cfg 0 props [] 0
           = Some ([] @ devs, 0 + sum_list (map usable_memory_bytes_planning devs))"
      and l: "length devs = length props"
      and p: "\<forall>j<length props. device_id (devs ! j) = 0 + j \<and> total_memory_bytes (devs ! j) = props ! j \<and>
            usable_vram_for_gpu (props ! j) (reserved_vram_mb_of cfg (0 + j)) (max_util_pct_of cfg (0 + j))
              = Some (usable_memory_bytes_planning (devs ! j))"
    using detect_gpu_devices_props[OF ex, of "[]" 0] by blast
  have "\<forall>i<length props.
      max 0 (((props ! i - reserved_vram_mb_of cfg i * 1024 * 1024) * max_util_pct_of cfg i) div 100) - 1
        \<le> usable_memory_bytes_planning (devs ! i) \<and>
      usable_memory_bytes_planning (devs ! i)
        \<le> max 0 (((props ! i - reserved_vram_mb_of cfg i * 1024 * 1024) * max_util_pct_of cfg i) div 100)"
  proof (intro allI impI)
    fix i assume i: "i < length props"
    obtain u where u: "usable_vram_for_gpu (props ! i) (reserved_vram_mb_of cfg i) (max_util_pct_of cfg i) = Some u"
      and b: "max 0 (((props ! i - reserved_vram_mb_of cfg i * 1024 * 1024) * max_util_pct_of cfg i) div 100) - 1 \<le> u"
             "u \<le> max 0 (((props ! i - reserved_vram_mb_of cfg i * 1024 * 1024) * max_util_pct_of cfg i) div 100)"
      using usable_vram_for_gpu_accuracy[of "max_util_pct_of cfg i" "props ! i" "reserved_vram_mb_of cfg i"]
        assms i by blast
    have "usable_memory_bytes_planning (devs ! i) = u" using p i u by simp
    then show "max 0 (((props ! i - reserved_vram_mb_of cfg i * 1024 * 1024) * max_util_pct_of cfg i) div 100) - 1
        \<le> usable_memory_bytes_planning (devs ! i) \<and>
      usable_memory_bytes_planning (devs ! i)
        \<le> max 0 (((props ! i - reserved_vram_mb_of cfg i * 1024 * 1024) * max_util_pct_of cfg i) div 100)"
      using b by simp
  qed
  then show ?thesis using d l p by (simp add: detect_gpus_def)
qed

text \<open>
  One device of 8 GiB under the default configuration (256 MiB reserved, 90 percent).
\<close>

theorem C9_witness:
  "\<exists>devs. detect_gpus default_gpu_cfg True [8589934592] []
             = Some (devs, sum_list (map usable_memory_bytes_planning devs)) \<and>
          length devs = 1 \<and> device_id (devs ! 0) = 0 \<and>
          total_memory_bytes (devs ! 0) = 8589934592 \<and>
          7489349221 \<le> usable_memory_bytes_planning (devs ! 0) \<and>
          usable_memory_bytes_planning (devs ! 0) \<le> 7489349222"
proof -
  have h: "\<forall>i<length [8589934592::int].
      0 \<le> max_util_pct_of default_gpu_cfg i \<and> max_util_pct_of default_gpu_cfg i \<le> 100 \<and>
      \<bar>[8589934592] ! i - reserved_vram_mb_of default_gpu_cfg i * 1024 * 1024\<bar> \<le> 2 ^ 45"
    by (simp add: max_util_pct_of_def reserved_vram_mb_of_def default_gpu_cfg_def)
  show ?thesis
    using C9_usable_vram_in_binary64[OF h]
    by (simp add: max_util_pct_of_def reserved_vram_mb_of_def default_gpu_cfg_def) blast
qed

text \<open>
  At 29 percent, 100 bytes give 28 and 25000 MiB give 7602175999, where the exact formula
  gives 29 and 7602176000; the recorded total is short by the same two bytes.
\<close>

theorem C9_counterexample:
  "detect_gpus tight_gpu_cfg True [100, 26482835456] []
     = Some ([\<lparr> device_id = 0, total_memory_bytes = 100, usable_memory_bytes_planning = 28 \<rparr>,
              \<lparr> device_id = 1, total_memory_bytes = 26482835456,
                usable_memory_bytes_planning = 7602175999 \<rparr>], 7602176027) \<and>
   spec_usable_vram 100 0 29 = 29 \<and>
   spec_usable_vram 26482835456 256 29 = 7602176000"
  by (simp add: detect_gpus_def tight_gpu_cfg_def reserved_vram_mb_of_def max_util_pct_of_def
      usable_100_29 usable_25000mib_29 spec_usable_vram_def)

end
